theory Spec2Isabelle
  imports Main "HOL-Library.Word"
begin

section \<open>Committee registry of a TBFT node (consensus/tbft/node.go)\<close>

text \<open>
  A shallow embedding of \<^verbatim>\<open>consensus/tbft/node.go\<close>: the per-committee \<^verbatim>\<open>service\<close>
  with its node table, and the \<^verbatim>\<open>Node\<close> registry that creates, feeds, starts and stops
  services.

  Conventions.
  \<^item> A Go method that mutates its receiver takes the receiver and returns the new one.
  \<^item> A Go pointer that the code compares with \<^verbatim>\<open>nil\<close>, or that is \<^verbatim>\<open>nil\<close> when the struct
    is allocated, is an \<open>option\<close>; reading through it when it is \<open>None\<close> is \<open>Panic\<close>.
    Elements of the input slices (\<^verbatim>\<open>[]*CommitteeNode\<close>, \<^verbatim>\<open>[]*CommitteeMember\<close>), the public
    key of a committee member and \<^verbatim>\<open>StartHeight\<close> are taken to be non-nil.
  \<^item> A Go \<^verbatim>\<open>error\<close> result is an \<open>error option\<close>, \<open>None\<close> for \<^verbatim>\<open>nil\<close>.
  \<^item> The packages \<^verbatim>\<open>crypto\<close>, \<^verbatim>\<open>p2p\<close> and \<^verbatim>\<open>ttypes\<close> are not part of the file. What their
    functions compute is a parameter, gathered in the record \<open>ext\<close>; what the code does to
    their objects (switch, event bus, health manager) is recorded in small records that log
    the calls.
  \<^item> A \<^verbatim>\<open>range\<close> over a Go map visits every key once, in an order the language leaves
    open: the order is a parameter of \<open>updateNodes\<close>.
  \<^item> Mutexes, the capacity of \<^verbatim>\<open>updateChan\<close> and the scheduling of goroutines are not
    modelled: a send on \<^verbatim>\<open>updateChan\<close> appends to the list of pending signals.
\<close>

subsection \<open>Results\<close>

datatype 'a exec = Done 'a | Panic

datatype error =
    WrongParams                \<comment> \<open>\<^verbatim>\<open>errors.New("wrong params")\<close>\<close>
  | RepeatID int               \<comment> \<open>\<^verbatim>\<open>"repeat ID:" + id.String()\<close>\<close>
  | NilState                   \<comment> \<open>\<^verbatim>\<open>"make the nil state"\<close>\<close>
  | NilCommitteeMembers        \<comment> \<open>\<^verbatim>\<open>"make the nil CommitteeMembers"\<close>\<close>
  | WrongCommitteeID int       \<comment> \<open>\<^verbatim>\<open>"wrong conmmitt ID:" + id.String()\<close>\<close>
  | WrongID int                \<comment> \<open>\<^verbatim>\<open>"wrong ID:" + id.String()\<close>\<close>
  | ServiceNotFound            \<comment> \<open>\<^verbatim>\<open>"service not found"\<close>\<close>
  | External string            \<comment> \<open>an error returned by a collaborator\<close>

subsection \<open>Identifiers and hexadecimal identities\<close>

type_synonym bytes = "8 word list"
type_synonym ID = string

text \<open>\<^verbatim>\<open>(*big.Int).Uint64\<close>: the low 64 bits of the absolute value.\<close>

definition Uint64 :: "int \<Rightarrow> 64 word" where
  "Uint64 i = word_of_int \<bar>i\<bar>"

text \<open>\<^verbatim>\<open>hex.EncodeToString\<close>: two lower-case digits per byte.\<close>

definition hextable :: string where
  "hextable = ''0123456789abcdef''"

definition encodeByte :: "8 word \<Rightarrow> string" where
  "encodeByte b = [hextable ! (unat b div 16), hextable ! (unat b mod 16)]"

definition EncodeToString :: "bytes \<Rightarrow> string" where
  "EncodeToString bs = concat (map encodeByte bs)"

text \<open>\<^verbatim>\<open>hex.DecodeString\<close>: digits of either case; an odd length or any other character is an
  error (\<open>None\<close>).\<close>

definition fromHexChar :: "char \<Rightarrow> nat option" where
  "fromHexChar c =
     (let n = (of_char c :: nat) in
      if 48 \<le> n \<and> n \<le> 57 then Some (n - 48)
      else if 97 \<le> n \<and> n \<le> 102 then Some (n - 97 + 10)
      else if 65 \<le> n \<and> n \<le> 70 then Some (n - 65 + 10)
      else None)"

fun DecodeString :: "string \<Rightarrow> bytes option" where
  "DecodeString [] = Some []"
| "DecodeString [c] = None"
| "DecodeString (a # b # cs) =
     (case fromHexChar a of
        None \<Rightarrow> None
      | Some x \<Rightarrow>
          (case fromHexChar b of
             None \<Rightarrow> None
           | Some y \<Rightarrow>
               (case DecodeString cs of
                  None \<Rightarrow> None
                | Some bs \<Rightarrow> Some (word_of_nat (x * 16 + y) # bs))))"

subsection \<open>Keys, validators, endpoints\<close>

datatype PublicKey = PublicKey (X: int) (Y: int)       \<comment> \<open>\<^verbatim>\<open>ecdsa.PublicKey\<close>\<close>
datatype PrivateKey = PrivateKey (pub: PublicKey) (D: int)  \<comment> \<open>\<^verbatim>\<open>ecdsa.PrivateKey\<close>\<close>
datatype PrivValidator = PrivValidator PrivateKey
datatype NetAddress = NetAddress ID string nat         \<comment> \<open>\<^verbatim>\<open>p2p.NetAddress\<close>\<close>

record Validator =
  Address :: bytes
  PubKey :: PublicKey
  VotingPower :: int

type_synonym ValidatorSet = "Validator list"

text \<open>Modelled from the spec: the type \<^verbatim>\<open>ttypes.ValidatorSet\<close> and its \<^verbatim>\<open>HasAddress\<close> are
  missing from the sources. The spec describes an ordered collection of (public key, voting
  power) pairs that "supports an address-membership predicate".\<close>

definition HasAddress :: "ValidatorSet \<Rightarrow> bytes \<Rightarrow> bool" where
  "HasAddress vals a = (a \<in> set (map Address vals))"

record CommitteeNode =          \<comment> \<open>\<^verbatim>\<open>types.CommitteeNode\<close>\<close>
  node_IP :: string
  node_Port :: nat
  node_Port2 :: nat
  node_Publickey :: bytes

record CommitteeMember =        \<comment> \<open>\<^verbatim>\<open>types.CommitteeMember\<close>\<close>
  Publickey :: PublicKey

record CommitteeInfo =          \<comment> \<open>\<^verbatim>\<open>types.CommitteeInfo\<close>\<close>
  Id :: "int option"
  StartHeight :: int
  Members :: "CommitteeMember list"
  BackMembers :: "CommitteeMember list"

record nodeInfo =
  ID :: ID
  Adrress :: "NetAddress option"
  IP :: string
  Port :: nat
  Enable :: bool

subsection \<open>Collaborators\<close>

datatype flag = StateUsedFlag | StateUnusedFlag

record Health =
  health_ID :: ID
  health_State :: flag
  health_Val :: Validator

record HealthMgr =              \<comment> \<open>\<^verbatim>\<open>ttypes.HealthMgr\<close>, as the calls this file makes on it\<close>
  hm_cid :: "64 word"
  Work :: "Health list"                              \<comment> \<open>\<^verbatim>\<open>PutWorkHealth\<close>\<close>
  Back :: "Health list"                              \<comment> \<open>\<^verbatim>\<open>PutBackHealth\<close>\<close>
  hm_running :: bool                                 \<comment> \<open>\<^verbatim>\<open>OnStart\<close>, \<^verbatim>\<open>OnStop\<close>\<close>
  HealthInfo :: "(ID \<times> string \<times> nat \<times> bytes) list"    \<comment> \<open>\<^verbatim>\<open>UpdataHealthInfo\<close>\<close>
  FromCommittee :: "(CommitteeMember list \<times> CommitteeMember list) list"
                                                     \<comment> \<open>\<^verbatim>\<open>UpdateFromCommittee\<close>\<close>

record Switch =                 \<comment> \<open>\<^verbatim>\<open>p2p.Switch\<close>\<close>
  sw_running :: bool                                 \<comment> \<open>\<^verbatim>\<open>IsRunning\<close>\<close>
  Listeners :: "string list"                         \<comment> \<open>\<^verbatim>\<open>AddListener\<close>\<close>
  Reactors :: "string list"                          \<comment> \<open>\<^verbatim>\<open>AddReactor\<close>\<close>
  Dialed :: "NetAddress option list"                 \<comment> \<open>\<^verbatim>\<open>DialPeerWithAddress\<close>\<close>

record EventBus =
  eb_running :: bool

record StateAgentImpl =         \<comment> \<open>\<^verbatim>\<open>ttypes.StateAgentImpl\<close>\<close>
  GetValidator :: ValidatorSet
  Priv :: "PrivValidator option"
  EndHeight :: nat

record ConsensusState =
  Height :: nat
  Validators :: ValidatorSet
  Votes :: string
  cs_privValidator :: "PrivValidator option"
  cs_healthMgr :: bool

record P2PConfig =
  ListenAddress1 :: string
  ListenAddress2 :: string

text \<open>What the functions of the missing packages compute.\<close>

record ext =
  UnmarshalPubkey :: "bytes \<Rightarrow> PublicKey option"       \<comment> \<open>\<^verbatim>\<open>crypto.UnmarshalPubkey\<close>, \<open>None\<close> on error\<close>
  FromECDSAPub :: "PublicKey \<Rightarrow> bytes"                  \<comment> \<open>\<^verbatim>\<open>crypto.FromECDSAPub\<close>\<close>
  PubkeyToAddress :: "PublicKey \<Rightarrow> bytes"               \<comment> \<open>\<^verbatim>\<open>crypto.PubkeyToAddress\<close>\<close>
  PubKeyTrueAddress :: "PublicKey \<Rightarrow> bytes"             \<comment> \<open>\<^verbatim>\<open>tcrypto.PubKeyTrue(pk).Address()\<close>\<close>
  PubKeyEquals :: "PublicKey \<Rightarrow> PublicKey \<Rightarrow> bool"      \<comment> \<open>\<^verbatim>\<open>PubKey.Equals\<close>\<close>
  GetAddress :: "PrivValidator \<Rightarrow> bytes"                \<comment> \<open>\<^verbatim>\<open>PrivValidator.GetAddress\<close>\<close>
  NewNetAddressString :: "ID \<Rightarrow> string \<Rightarrow> nat \<Rightarrow> NetAddress option"
    \<comment> \<open>\<^verbatim>\<open>p2p.NewNetAddressString(p2p.IDAddressString(id, fmt.Sprintf("%v:%v", ip, port)))\<close>,
        \<open>None\<close> for the nil address returned with an error\<close>
  DialPeerWithAddress :: "Switch \<Rightarrow> NetAddress option \<Rightarrow> error option"
  EventBusStart :: "EventBus \<Rightarrow> error option"
  SwitchStart :: "Switch \<Rightarrow> error option"
  NewStateAgent :: "ValidatorSet option \<Rightarrow> 64 word \<Rightarrow> 64 word \<Rightarrow> StateAgentImpl option"
  NewConsensusState :: "StateAgentImpl \<Rightarrow> ConsensusState"
  UpdateValidatorSet :: "ConsensusState \<Rightarrow> CommitteeInfo \<Rightarrow> bool \<times> ConsensusState"

subsection \<open>The service of one committee\<close>

record service =
  sw :: Switch
  consensusState :: "ConsensusState option"
  consensusReactor :: bool
  sa :: "StateAgentImpl option"
  nodeTable :: "ID \<rightharpoonup> nodeInfo option"
  updateChan :: "bool list"
  eventBus :: EventBus
  healthMgr :: HealthMgr

definition NewHealthMgr :: "64 word \<Rightarrow> HealthMgr" where
  "NewHealthMgr cid =
     \<lparr>hm_cid = cid, Work = [], Back = [], hm_running = False, HealthInfo = [],
      FromCommittee = []\<rparr>"

definition PutWorkHealth :: "Health \<Rightarrow> HealthMgr \<Rightarrow> HealthMgr" where
  "PutWorkHealth h hm = hm\<lparr>Work := Work hm @ [h]\<rparr>"

definition PutBackHealth :: "Health \<Rightarrow> HealthMgr \<Rightarrow> HealthMgr" where
  "PutBackHealth h hm = hm\<lparr>Back := Back hm @ [h]\<rparr>"

definition UpdataHealthInfo :: "ID \<Rightarrow> string \<Rightarrow> nat \<Rightarrow> bytes \<Rightarrow> HealthMgr \<Rightarrow> HealthMgr" where
  "UpdataHealthInfo i ip port pk hm = hm\<lparr>HealthInfo := HealthInfo hm @ [(i, ip, port, pk)]\<rparr>"

definition UpdateFromCommittee ::
  "CommitteeMember list \<Rightarrow> CommitteeMember list \<Rightarrow> HealthMgr \<Rightarrow> HealthMgr" where
  "UpdateFromCommittee ms bs hm = hm\<lparr>FromCommittee := FromCommittee hm @ [(ms, bs)]\<rparr>"

definition NewSwitch :: Switch where
  "NewSwitch = \<lparr>sw_running = False, Listeners = [], Reactors = [], Dialed = []\<rparr>"

definition newNodeService :: "ext \<Rightarrow> StateAgentImpl \<Rightarrow> 64 word \<Rightarrow> service" where
  "newNodeService E state cid =
     \<lparr>sw = NewSwitch,
      consensusState = Some (NewConsensusState E state),
      consensusReactor = False,
      sa = None,
      nodeTable = Map.empty,
      updateChan = [],
      eventBus = \<lparr>eb_running = False\<rparr>,
      healthMgr = NewHealthMgr cid\<rparr>"

definition setNodes :: "(ID \<rightharpoonup> nodeInfo option) \<Rightarrow> service \<Rightarrow> service" where
  "setNodes nodes s = s\<lparr>nodeTable := nodes\<rparr>"

text \<open>\<^verbatim>\<open>service.stop\<close>. It always returns \<^verbatim>\<open>nil\<close>, so only the service is returned.\<close>

definition stop :: "service \<Rightarrow> service" where
  "stop s =
     (let s1 = (if sw_running (sw s)
                then s\<lparr>updateChan := updateChan s @ [False],
                       healthMgr := (healthMgr s)\<lparr>hm_running := False\<rparr>,
                       eventBus := (eventBus s)\<lparr>eb_running := False\<rparr>\<rparr>
                else s)
      in s1\<lparr>sw := (sw s1)\<lparr>sw_running := False\<rparr>\<rparr>)"

subsubsection \<open>putNodes\<close>

text \<open>One round of the loop of \<^verbatim>\<open>putNodes\<close>; the second component of the state is the
  local flag \<^verbatim>\<open>update\<close>. The two \<^verbatim>\<open>continue\<close> statements return the state as it is.\<close>

definition putNode ::
  "ext \<Rightarrow> int \<Rightarrow> service \<times> bool \<Rightarrow> CommitteeNode \<Rightarrow> (service \<times> bool) exec" where
  "putNode E cid su node =
     (case UnmarshalPubkey E (node_Publickey node) of
        None \<Rightarrow> Done su
      | Some pk \<Rightarrow>
          (case sa (fst su) of
             None \<Rightarrow> Panic
           | Some st \<Rightarrow>
               let s = fst su;
                   update = snd su;
                   address = PubkeyToAddress E pk
               in if \<not> HasAddress (GetValidator st) address then Done su
                  else
                    let port = (if Uint64 cid mod 2 = 0 then node_Port node else node_Port2 node);
                        i = EncodeToString address;
                        addr = NewNetAddressString E i (node_IP node) port;
                        enter = (nodeTable s i = Some None);
                        s1 = (if enter
                              then s\<lparr>nodeTable := (nodeTable s)(i \<mapsto>
                                       Some \<lparr>ID = i, Adrress = addr, IP = node_IP node,
                                             Port = port, Enable = False\<rparr>)\<rparr>
                              else s)
                    in Done (s1\<lparr>healthMgr :=
                                   UpdataHealthInfo i (node_IP node) port (node_Publickey node)
                                     (healthMgr s1)\<rparr>,
                             update \<or> enter)))"

fun putNodes_loop ::
  "ext \<Rightarrow> int \<Rightarrow> service \<times> bool \<Rightarrow> CommitteeNode list \<Rightarrow> (service \<times> bool) exec" where
  "putNodes_loop E cid su [] = Done su"
| "putNodes_loop E cid su (node # nodes) =
     (case putNode E cid su node of
        Panic \<Rightarrow> Panic
      | Done su' \<Rightarrow> putNodes_loop E cid su' nodes)"

text \<open>\<^verbatim>\<open>service.putNodes\<close>. The nil slice is the empty list. After the loop the connection
  driver is signalled when an entry was entered and the local validator is in the validator
  set of the consensus state.\<close>

definition putNodes :: "ext \<Rightarrow> int \<Rightarrow> service \<Rightarrow> CommitteeNode list \<Rightarrow> service exec" where
  "putNodes E cid s nodes =
     (if nodes = [] then Done s
      else
        (case putNodes_loop E cid (s, False) nodes of
           Panic \<Rightarrow> Panic
         | Done (s1, update) \<Rightarrow>
             if \<not> update then Done s1
             else
               (case sa s1 of
                  None \<Rightarrow> Panic
                | Some st \<Rightarrow>
                    (case Priv st of
                       None \<Rightarrow> Done s1
                     | Some pv \<Rightarrow>
                         (case consensusState s1 of
                            None \<Rightarrow> Panic
                          | Some cs \<Rightarrow>
                              if HasAddress (Validators cs) (GetAddress E pv)
                              then Done (s1\<lparr>updateChan := updateChan s1 @ [True]\<rparr>)
                              else Done s1)))))"

text \<open>\<^verbatim>\<open>pkToP2pID\<close>\<close>

definition pkToP2pID :: "ext \<Rightarrow> PublicKey \<Rightarrow> ID" where
  "pkToP2pID E pk =
     (case UnmarshalPubkey E (FromECDSAPub E pk) of
        None \<Rightarrow> []
      | Some p \<Rightarrow> EncodeToString (PubkeyToAddress E p))"

subsubsection \<open>updateNodes and connTo\<close>

text \<open>\<^verbatim>\<open>connTo\<close>. The record \<open>node\<close> is the one the table holds under the key \<open>k\<close>: the Go
  code writes \<^verbatim>\<open>Enable\<close> through the pointer stored there. Every call of
  \<^verbatim>\<open>DialPeerWithAddress\<close> is appended to \<open>Dialed\<close>.\<close>

definition connTo :: "ext \<Rightarrow> service \<Rightarrow> ID \<Rightarrow> nodeInfo \<Rightarrow> service" where
  "connTo E s k node =
     (if Enable node then s
      else
        let errDialErr = DialPeerWithAddress E (sw s) (Adrress node);
            s1 = s\<lparr>sw := (sw s)\<lparr>Dialed := Dialed (sw s) @ [Adrress node]\<rparr>\<rparr>
        in (case errDialErr of
              Some err \<Rightarrow> s1
            | None \<Rightarrow> s1\<lparr>nodeTable := (nodeTable s1)(k \<mapsto> Some (node\<lparr>Enable := True\<rparr>))\<rparr>))"

text \<open>\<^verbatim>\<open>updateNodes\<close>, visiting the keys in the order \<open>ks\<close>. The first statement of the body
  reads \<^verbatim>\<open>v.ID\<close>: for a nil \<^verbatim>\<open>v\<close> that is a nil-pointer dereference, before the condition
  with its test \<^verbatim>\<open>v != nil\<close> is reached. The condition is evaluated left to right and stops
  at the first false conjunct.\<close>

fun updateNodes :: "ext \<Rightarrow> service \<Rightarrow> ID list \<Rightarrow> service exec" where
  "updateNodes E s [] = Done s"
| "updateNodes E s (k # ks) =
     (case nodeTable s k of
        None \<Rightarrow> updateNodes E s ks
      | Some None \<Rightarrow> Panic
      | Some (Some v) \<Rightarrow>
          let r = DecodeString (ID v)
          in if Enable v then updateNodes E s ks
             else
               (case r of
                  None \<Rightarrow> updateNodes E s ks
                | Some address \<Rightarrow>
                    (case consensusState s of
                       None \<Rightarrow> Panic
                     | Some cs \<Rightarrow>
                         if HasAddress (Validators cs) address
                         then updateNodes E (connTo E s k v) ks
                         else updateNodes E s ks)))"

subsection \<open>The node and its registry of services\<close>

text \<open>The fields \<^verbatim>\<open>config\<close>, \<^verbatim>\<open>priv\<close> and \<^verbatim>\<open>services\<close> of \<^verbatim>\<open>Node\<close>. A service is a heap
  object: when the registry lets go of one, the object stays as \<^verbatim>\<open>stop\<close> left it. The
  field \<open>dropped\<close> is not in the Go struct; it keeps these objects, so that what was done to
  them can be stated.\<close>

record Node =
  config :: P2PConfig
  priv :: PrivateKey
  services :: "64 word \<rightharpoonup> service"
  dropped :: "service list"

definition NewNode :: "P2PConfig \<Rightarrow> PrivateKey \<Rightarrow> Node" where
  "NewNode c p = \<lparr>config = c, priv = p, services = Map.empty, dropped = []\<rparr>"

text \<open>\<^verbatim>\<open>service.start\<close>. The calls that only configure the address book and the node info of
  the switch are left out; the listener address follows the parity of the committee id. The
  goroutine that serves \<^verbatim>\<open>updateChan\<close> is not started here: its body is \<open>updateNodes\<close>.\<close>

definition start :: "ext \<Rightarrow> int \<Rightarrow> Node \<Rightarrow> service \<Rightarrow> (service \<times> error option) exec" where
  "start E cid node s =
     (case EventBusStart E (eventBus s) of
        Some err \<Rightarrow> Done (s, Some err)
      | None \<Rightarrow>
          let s1 = s\<lparr>eventBus := (eventBus s)\<lparr>eb_running := True\<rparr>\<rparr>;
              lstr = (if Uint64 cid mod 2 = 0 then ListenAddress1 (config node)
                      else ListenAddress2 (config node));
              s2 = s1\<lparr>sw := (sw s1)\<lparr>Listeners := Listeners (sw s1) @ [lstr]\<rparr>\<rparr>;
              privValidator = PrivValidator (priv node)
          in (case consensusState s2 of
                None \<Rightarrow> Panic
              | Some cs \<Rightarrow>
                  (case sa s2 of
                     None \<Rightarrow> Panic
                   | Some st \<Rightarrow>
                       let s3 = s2\<lparr>consensusState :=
                                      Some (cs\<lparr>cs_privValidator := Some privValidator\<rparr>),
                                    sa := Some (st\<lparr>Priv := Some privValidator\<rparr>)\<rparr>
                       in (case SwitchStart E (sw s3) of
                             Some err \<Rightarrow> Done (s3, Some err)
                           | None \<Rightarrow>
                               Done (s3\<lparr>sw := (sw s3)\<lparr>sw_running := True\<rparr>\<rparr>, None)))))"

text \<open>The actions of \<^verbatim>\<open>Notify\<close>.\<close>

definition Start :: int where "Start = 0"
definition Stop :: int where "Stop = 1"
definition Switch :: int where "Switch = 2"

text \<open>\<^verbatim>\<open>Node.Notify\<close>. In the \<^verbatim>\<open>Start\<close> case the result of \<^verbatim>\<open>server.start\<close> is not assigned
  and \<^verbatim>\<open>nil\<close> is returned. The arguments of the log calls read
  \<^verbatim>\<open>server.consensusState.Height\<close> and \<^verbatim>\<open>server.sa.EndHeight\<close>.\<close>

definition Notify :: "ext \<Rightarrow> Node \<Rightarrow> int option \<Rightarrow> int \<Rightarrow> (Node \<times> error option) exec" where
  "Notify E n id' action =
     (if action = Start then
        (case id' of
           None \<Rightarrow> Panic
         | Some i \<Rightarrow>
             (case services n (Uint64 i) of
                Some server \<Rightarrow>
                  (case consensusState server of
                     None \<Rightarrow> Panic
                   | Some cs \<Rightarrow>
                       (case sa server of
                          None \<Rightarrow> Panic
                        | Some st \<Rightarrow>
                            (case start E i n server of
                               Panic \<Rightarrow> Panic
                             | Done (server', err) \<Rightarrow>
                                 Done (n\<lparr>services := (services n)(Uint64 i \<mapsto> server')\<rparr>,
                                       None))))
              | None \<Rightarrow> Done (n, Some (WrongCommitteeID i))))
      else if action = Stop then
        (case id' of
           None \<Rightarrow> Panic
         | Some i \<Rightarrow>
             (case services n (Uint64 i) of
                Some server \<Rightarrow>
                  (case consensusState server of
                     None \<Rightarrow> Panic
                   | Some cs \<Rightarrow>
                       let server' = stop server
                       in Done (n\<lparr>services := (services n)(Uint64 i := None),
                                  dropped := dropped n @ [server']\<rparr>, None))
              | None \<Rightarrow> Done (n, None)))
      else Done (n, None))"

text \<open>Modelled from the spec: \<^verbatim>\<open>ttypes.NewValidator\<close> and \<^verbatim>\<open>ttypes.NewValidatorSet\<close> are
  missing from the sources. The spec has one validator per member, in the order of the
  member list, each with the voting power given; a validator is found by the address of
  its public key.\<close>

definition NewValidator :: "ext \<Rightarrow> PublicKey \<Rightarrow> int \<Rightarrow> Validator" where
  "NewValidator E pk vp = \<lparr>Address = PubKeyTrueAddress E pk, PubKey = pk, VotingPower = vp\<rparr>"

definition NewValidatorSet :: "Validator list \<Rightarrow> ValidatorSet" where
  "NewValidatorSet vals = vals"

text \<open>\<^verbatim>\<open>MakeValidators\<close>: both branches of the loop set the power to 1.\<close>

definition MakeValidators :: "ext \<Rightarrow> CommitteeInfo \<Rightarrow> ValidatorSet option" where
  "MakeValidators E cmm =
     (if Id cmm = None \<or> Members cmm = [] then None
      else Some (NewValidatorSet (map (\<lambda>m. NewValidator E (Publickey m) 1) (Members cmm))))"

text \<open>\<^verbatim>\<open>makeCommitteeMembers\<close>: \<open>None\<close> is the nil map, returned for a nil service or an empty
  member list; otherwise every member's identity is mapped to the nil record.\<close>

definition makeCommitteeMembers ::
  "ext \<Rightarrow> 64 word \<Rightarrow> service option \<Rightarrow> CommitteeInfo \<Rightarrow> (ID \<rightharpoonup> nodeInfo option) option" where
  "makeCommitteeMembers E cid ss cmm =
     (if ss = None \<or> Members cmm = [] then None
      else Some (fold (\<lambda>m tab. tab(EncodeToString (PubKeyTrueAddress E (Publickey m)) \<mapsto> None))
                   (Members cmm) Map.empty))"

text \<open>The two loops of \<^verbatim>\<open>PutCommittee\<close> that fill the health manager: the working members
  except the local node, and the backup members.\<close>

definition putWorkMembers :: "ext \<Rightarrow> Node \<Rightarrow> CommitteeMember list \<Rightarrow> HealthMgr \<Rightarrow> HealthMgr" where
  "putWorkMembers E n ms hm =
     fold (\<lambda>v h.
             let i = pkToP2pID E (Publickey v)
             in if PubKeyEquals E (pub (priv n)) (Publickey v) then h
                else PutWorkHealth
                       \<lparr>health_ID = i, health_State = StateUsedFlag,
                        health_Val = NewValidator E (Publickey v) 1\<rparr> h)
          ms hm"

definition putBackMembers :: "ext \<Rightarrow> CommitteeMember list \<Rightarrow> HealthMgr \<Rightarrow> HealthMgr" where
  "putBackMembers E ms hm =
     fold (\<lambda>v h.
             PutBackHealth
               \<lparr>health_ID = pkToP2pID E (Publickey v), health_State = StateUnusedFlag,
                health_Val = NewValidator E (Publickey v) 1\<rparr> h)
          ms hm"

text \<open>\<^verbatim>\<open>Node.PutCommittee\<close>. The agent and the chain id given to \<^verbatim>\<open>NewStateAgent\<close> are fixed
  for a node and are part of the parameter \<open>NewStateAgent E\<close>. When
  \<^verbatim>\<open>makeCommitteeMembers\<close> returns nil, the service is stopped and never registered.\<close>

definition PutCommittee :: "ext \<Rightarrow> Node \<Rightarrow> CommitteeInfo \<Rightarrow> (Node \<times> error option) exec" where
  "PutCommittee E n committeeInfo =
     (case Id committeeInfo of
        None \<Rightarrow> Done (n, Some WrongParams)
      | Some i \<Rightarrow>
          if Members committeeInfo = [] then Done (n, Some WrongParams)
          else if services n (Uint64 i) \<noteq> None then Done (n, Some (RepeatID i))
          else
            let startHeight = Uint64 (StartHeight committeeInfo);
                cid = Uint64 i
            in (case NewStateAgent E (MakeValidators E committeeInfo) startHeight cid of
                  None \<Rightarrow> Done (n, Some NilState)
                | Some state \<Rightarrow>
                    let s0 = newNodeService E state cid;
                        s1 = s0\<lparr>healthMgr :=
                                  putWorkMembers E n (Members committeeInfo) (healthMgr s0)\<rparr>;
                        s2 = s1\<lparr>healthMgr :=
                                  putBackMembers E (BackMembers committeeInfo) (healthMgr s1)\<rparr>;
                        s3 = s2\<lparr>healthMgr := (healthMgr s2)\<lparr>hm_running := True\<rparr>\<rparr>;
                        s4 = s3\<lparr>consensusState :=
                                  map_option (\<lambda>cs. cs\<lparr>cs_healthMgr := True\<rparr>)
                                    (consensusState s3)\<rparr>
                    in (case makeCommitteeMembers E cid (Some s4) committeeInfo of
                          None \<Rightarrow>
                            Done (n\<lparr>dropped := dropped n @ [stop s4]\<rparr>,
                                  Some NilCommitteeMembers)
                        | Some nodeinfo \<Rightarrow>
                            let s5 = setNodes nodeinfo s4;
                                s6 = s5\<lparr>sa := Some state, consensusReactor := True\<rparr>;
                                s7 = s6\<lparr>sw := (sw s6)\<lparr>Reactors :=
                                                          Reactors (sw s6) @ [''CONSENSUS'']\<rparr>\<rparr>
                            in Done (n\<lparr>services := (services n)(cid \<mapsto> s7)\<rparr>, None))))"

text \<open>\<^verbatim>\<open>Node.PutNodes\<close>\<close>

definition PutNodes ::
  "ext \<Rightarrow> Node \<Rightarrow> int option \<Rightarrow> CommitteeNode list \<Rightarrow> (Node \<times> error option) exec" where
  "PutNodes E n id' nodes =
     (case id' of
        None \<Rightarrow> Done (n, Some WrongParams)
      | Some i \<Rightarrow>
          if nodes = [] then Done (n, Some WrongParams)
          else
            (case services n (Uint64 i) of
               None \<Rightarrow> Done (n, Some (WrongID i))
             | Some server \<Rightarrow>
                 (case putNodes E i server nodes of
                    Panic \<Rightarrow> Panic
                  | Done server' \<Rightarrow>
                      Done (n\<lparr>services := (services n)(Uint64 i \<mapsto> server')\<rparr>, None))))"

text \<open>\<^verbatim>\<open>Node.UpdateCommittee\<close>. After \<^verbatim>\<open>service.stop()\<close> the function goes on: it signals the
  driver and updates the health manager. The registry is not changed.\<close>

definition UpdateCommittee :: "ext \<Rightarrow> Node \<Rightarrow> CommitteeInfo \<Rightarrow> (Node \<times> error option) exec" where
  "UpdateCommittee E n info =
     (case Id info of
        None \<Rightarrow> Panic
      | Some i \<Rightarrow>
          (case services n (Uint64 i) of
             None \<Rightarrow> Done (n, Some ServiceNotFound)
           | Some service \<Rightarrow>
               (case consensusState service of
                  None \<Rightarrow> Panic
                | Some cs \<Rightarrow>
                    let r = UpdateValidatorSet E cs info;
                        s1 = service\<lparr>consensusState := Some (snd r)\<rparr>;
                        s2 = (if fst r then stop s1 else s1);
                        s3 = s2\<lparr>updateChan := updateChan s2 @ [True]\<rparr>;
                        s4 = s3\<lparr>healthMgr :=
                                  UpdateFromCommittee (Members info) (BackMembers info)
                                    (healthMgr s3)\<rparr>
                    in Done (n\<lparr>services := (services n)(Uint64 i \<mapsto> s4)\<rparr>, None))))"

text \<open>\<^verbatim>\<open>getCommittee\<close>, \<^verbatim>\<open>getNodeStatus\<close> and \<^verbatim>\<open>Node.GetCommitteeStatus\<close>. The result map has
  the keys \<^verbatim>\<open>committee_now\<close>, \<^verbatim>\<open>nodeStatus\<close> and \<^verbatim>\<open>committee_next\<close>, each present or not;
  \<^verbatim>\<open>nodes_cnt\<close> is set for the current committee only.\<close>

record committee =
  committee_id :: "64 word"
  committee_nodes :: "ID \<rightharpoonup> nodeInfo option"
  committee_nodes_cnt :: "nat option"

record status =
  committee_now :: "committee option"
  nodeStatus :: "(nat \<times> string) option"
  committee_next :: "committee option"

definition getCommittee :: "Node \<Rightarrow> 64 word \<Rightarrow> service option" where
  "getCommittee n cid = services n cid"

definition getNodeStatus :: "service \<Rightarrow> (nat \<times> string) exec" where
  "getNodeStatus s =
     (case consensusState s of
        None \<Rightarrow> Panic
      | Some cs \<Rightarrow> Done (Height cs, Votes cs))"

definition GetCommitteeStatus :: "Node \<Rightarrow> int option \<Rightarrow> status exec" where
  "GetCommitteeStatus n committeeID =
     (case committeeID of
        None \<Rightarrow> Panic
      | Some i \<Rightarrow>
          let next = (case getCommittee n (Uint64 i + 1) of
                        None \<Rightarrow> None
                      | Some s1 \<Rightarrow>
                          Some \<lparr>committee_id = Uint64 i + 1, committee_nodes = nodeTable s1,
                                committee_nodes_cnt = None\<rparr>)
          in (case getCommittee n (Uint64 i) of
                None \<Rightarrow>
                  Done \<lparr>committee_now = None, nodeStatus = None, committee_next = next\<rparr>
              | Some s \<Rightarrow>
                  (case getNodeStatus s of
                     Panic \<Rightarrow> Panic
                   | Done st \<Rightarrow>
                       Done \<lparr>committee_now =
                               Some \<lparr>committee_id = Uint64 i, committee_nodes = nodeTable s,
                                     committee_nodes_cnt = Some (card (dom (nodeTable s)))\<rparr>,
                             nodeStatus = Some st, committee_next = next\<rparr>)))"

subsection \<open>Vocabulary of the properties\<close>

text \<open>The address that \<^verbatim>\<open>putNodes\<close> derives from the public key a candidate declares
  (\<open>None\<close> for a malformed key), the test that lets a candidate through, and the port that
  the parity of the committee id selects.\<close>

definition derivedAddress :: "ext \<Rightarrow> CommitteeNode \<Rightarrow> bytes option" where
  "derivedAddress E node = map_option (PubkeyToAddress E) (UnmarshalPubkey E (node_Publickey node))"

definition authorized :: "ext \<Rightarrow> ValidatorSet \<Rightarrow> CommitteeNode \<Rightarrow> bool" where
  "authorized E V node =
     (case derivedAddress E node of None \<Rightarrow> False | Some a \<Rightarrow> HasAddress V a)"

definition portOf :: "int \<Rightarrow> CommitteeNode \<Rightarrow> nat" where
  "portOf cid node = (if Uint64 cid mod 2 = 0 then node_Port node else node_Port2 node)"

text \<open>The records that \<^verbatim>\<open>putNodes\<close> hands to \<^verbatim>\<open>UpdataHealthInfo\<close> for one candidate: one
  record when the key parses and the derived address is in the validator set \<open>V\<close>, none
  otherwise.\<close>

definition healthRecords ::
  "ext \<Rightarrow> int \<Rightarrow> ValidatorSet \<Rightarrow> CommitteeNode \<Rightarrow> (ID \<times> string \<times> nat \<times> bytes) list" where
  "healthRecords E cid V c =
     (case derivedAddress E c of
        None \<Rightarrow> []
      | Some a \<Rightarrow>
          if HasAddress V a
          then [(EncodeToString a, node_IP c, portOf cid c, node_Publickey c)]
          else [])"

text \<open>An entry of the node table that one pass of \<^verbatim>\<open>updateNodes\<close> is to dial: not yet
  connected, and its identity decodes to an address of the validator set.\<close>

definition dialable :: "ValidatorSet \<Rightarrow> nodeInfo \<Rightarrow> bool" where
  "dialable V v =
     (\<not> Enable v \<and> (case DecodeString (ID v) of None \<Rightarrow> False | Some a \<Rightarrow> HasAddress V a))"

text \<open>The resolved entries of a table, in the order in which the keys \<open>ks\<close> are visited.\<close>

definition entriesOf :: "(ID \<rightharpoonup> nodeInfo option) \<Rightarrow> ID list \<Rightarrow> nodeInfo list" where
  "entriesOf t ks = concat (map (\<lambda>k. case t k of Some (Some v) \<Rightarrow> [v] | _ \<Rightarrow> []) ks)"

text \<open>The identity under which \<^verbatim>\<open>makeCommitteeMembers\<close> enters a member.\<close>

definition memberID :: "ext \<Rightarrow> CommitteeMember \<Rightarrow> ID" where
  "memberID E m = EncodeToString (PubKeyTrueAddress E (Publickey m))"

text \<open>A service is wired when its consensus state and its state agent are there; a registry
  is wired when its services are.

  The projections of a result: the error returned, the node afterwards (the node before, if
  the call panicked), the table of a registered service, whether its switch is running, for
  every service the registry has let go of whether its switch, its health manager and its
  event bus are running and what is pending on its update channel, and the id of the current
  committee in a status.\<close>

definition outcome :: "('a \<times> error option) exec \<Rightarrow> error option exec" where
  "outcome r = (case r of Done (n, e) \<Rightarrow> Done e | Panic \<Rightarrow> Panic)"

definition wiredService :: "service \<Rightarrow> bool" where
  "wiredService s = (consensusState s \<noteq> None \<and> sa s \<noteq> None)"

definition wired :: "Node \<Rightarrow> bool" where
  "wired n = (\<forall>k s. services n k = Some s \<longrightarrow> wiredService s)"

definition nodeAfter :: "Node \<Rightarrow> (Node \<times> error option) exec \<Rightarrow> Node" where
  "nodeAfter n r = (case r of Done (n', e) \<Rightarrow> n' | Panic \<Rightarrow> n)"

definition tableOf :: "Node \<Rightarrow> 64 word \<Rightarrow> (ID \<rightharpoonup> nodeInfo option)" where
  "tableOf n cid = (case services n cid of None \<Rightarrow> Map.empty | Some s \<Rightarrow> nodeTable s)"

definition runningOf :: "Node \<Rightarrow> 64 word \<Rightarrow> bool option" where
  "runningOf n cid = map_option (\<lambda>s. sw_running (sw s)) (services n cid)"

definition droppedState :: "Node \<Rightarrow> (bool \<times> bool \<times> bool \<times> bool list) list" where
  "droppedState n =
     map (\<lambda>s. (sw_running (sw s), hm_running (healthMgr s), eb_running (eventBus s),
               updateChan s))
       (dropped n)"

definition nowOf :: "status exec \<Rightarrow> 64 word option" where
  "nowOf r = (case r of Done st \<Rightarrow> map_option committee_id (committee_now st) | Panic \<Rightarrow> None)"

subsection \<open>A small concrete world\<close>

text \<open>Collaborators for running the definitions: a key is two bytes, its address the same two
  bytes, every dial to a non-nil address and every start succeeds, and a validator-set update
  keeps the consensus state and does not ask for a stop.\<close>

definition keyBytes :: "PublicKey \<Rightarrow> bytes" where
  "keyBytes pk = [word_of_int (X pk), word_of_int (Y pk)]"

definition testExt :: ext where
  "testExt =
     \<lparr>UnmarshalPubkey = (\<lambda>bs. case bs of [x, y] \<Rightarrow> Some (PublicKey (uint x) (uint y)) | _ \<Rightarrow> None),
      FromECDSAPub = keyBytes,
      PubkeyToAddress = keyBytes,
      PubKeyTrueAddress = keyBytes,
      PubKeyEquals = (=),
      GetAddress = (\<lambda>pv. case pv of PrivValidator k \<Rightarrow> keyBytes (pub k)),
      NewNetAddressString = (\<lambda>i ip port. Some (NetAddress i ip port)),
      DialPeerWithAddress = (\<lambda>sw a. case a of None \<Rightarrow> Some (External ''nil address'') | Some _ \<Rightarrow> None),
      EventBusStart = (\<lambda>eb. None),
      SwitchStart = (\<lambda>sw. None),
      NewStateAgent = (\<lambda>vals h cid. case vals of None \<Rightarrow> None
                         | Some v \<Rightarrow> Some \<lparr>GetValidator = v, Priv = None, EndHeight = 0\<rparr>),
      NewConsensusState = (\<lambda>st. \<lparr>Height = 0, Validators = GetValidator st, Votes = [],
                                  cs_privValidator = None, cs_healthMgr = False\<rparr>),
      UpdateValidatorSet = (\<lambda>cs info. (False, cs))\<rparr>"

text \<open>The local node and two other members; committee 7 with the three of them, and the
  committee with the local node alone.\<close>

definition keySelf :: PublicKey where "keySelf = PublicKey 1 1"
definition keyA :: PublicKey where "keyA = PublicKey 2 2"
definition keyB :: PublicKey where "keyB = PublicKey 3 3"

definition testNode :: Node where
  "testNode = NewNode \<lparr>ListenAddress1 = ''tcp://0.0.0.0:30310'', ListenAddress2 = ''tcp://0.0.0.0:30311''\<rparr>
                (PrivateKey keySelf 5)"

definition committee7 :: CommitteeInfo where
  "committee7 =
     \<lparr>Id = Some 7, StartHeight = 1,
      Members = [\<lparr>Publickey = keySelf\<rparr>, \<lparr>Publickey = keyA\<rparr>, \<lparr>Publickey = keyB\<rparr>],
      BackMembers = []\<rparr>"

definition committeeSelf :: CommitteeInfo where
  "committeeSelf =
     \<lparr>Id = Some 7, StartHeight = 1, Members = [\<lparr>Publickey = keySelf\<rparr>], BackMembers = []\<rparr>"

definition committeeNoId :: CommitteeInfo where
  "committeeNoId =
     \<lparr>Id = None, StartHeight = 1, Members = [\<lparr>Publickey = keyA\<rparr>], BackMembers = []\<rparr>"

definition committeeAB :: CommitteeInfo where
  "committeeAB =
     \<lparr>Id = Some 7, StartHeight = 1,
      Members = [\<lparr>Publickey = keyA\<rparr>, \<lparr>Publickey = keyB\<rparr>], BackMembers = []\<rparr>"

text \<open>Endpoints: of the member A, a second one for A at another address, of the member B, of
  a key outside the committee, and one whose key does not parse.\<close>

definition endpointA :: CommitteeNode where
  "endpointA = \<lparr>node_IP = ''1.2.3.4'', node_Port = 30303, node_Port2 = 30304,
                node_Publickey = [2, 2]\<rparr>"

definition endpointA2 :: CommitteeNode where
  "endpointA2 = \<lparr>node_IP = ''9.9.9.9'', node_Port = 40403, node_Port2 = 40404,
                 node_Publickey = [2, 2]\<rparr>"

definition endpointB :: CommitteeNode where
  "endpointB = \<lparr>node_IP = ''1.2.3.5'', node_Port = 30303, node_Port2 = 30304,
                node_Publickey = [3, 3]\<rparr>"

definition endpointX :: CommitteeNode where
  "endpointX = \<lparr>node_IP = ''6.6.6.6'', node_Port = 30303, node_Port2 = 30304,
                node_Publickey = [9, 9]\<rparr>"

definition endpointBad :: CommitteeNode where
  "endpointBad = \<lparr>node_IP = ''6.6.6.7'', node_Port = 30303, node_Port2 = 30304,
                  node_Publickey = [9]\<rparr>"

definition testValidators :: ValidatorSet where
  "testValidators = map (\<lambda>k. NewValidator testExt k 1) [keySelf, keyA, keyB]"

definition resolvedA :: nodeInfo where
  "resolvedA = \<lparr>ID = ''0202'', Adrress = Some (NetAddress ''0202'' ''1.2.3.4'' 30304),
                IP = ''1.2.3.4'', Port = 30304, Enable = False\<rparr>"

text \<open>A service of committee 7 whose table holds the resolved entry of member A and the
  placeholder of member B.\<close>

definition testAgent :: StateAgentImpl where
  "testAgent = \<lparr>GetValidator = testValidators, Priv = None, EndHeight = 0\<rparr>"

definition testService :: service where
  "testService =
     \<lparr>sw = NewSwitch,
      consensusState = Some \<lparr>Height = 0, Validators = testValidators, Votes = [],
                             cs_privValidator = None, cs_healthMgr = True\<rparr>,
      consensusReactor = True,
      sa = Some testAgent,
      nodeTable = [''0202'' \<mapsto> Some resolvedA, ''0303'' \<mapsto> None],
      updateChan = [],
      eventBus = \<lparr>eb_running = False\<rparr>,
      healthMgr = NewHealthMgr 7\<rparr>"

text \<open>A node whose registry holds that service under the id 7, the same with the switch of
  the service running, a world in which the event bus does not start, and a world in which
  the update of the validator set asks for a stop.\<close>

definition testRegistry :: Node where
  "testRegistry = testNode\<lparr>services := [7 \<mapsto> testService]\<rparr>"

definition liveRegistry :: Node where
  "liveRegistry =
     testNode\<lparr>services := [7 \<mapsto> testService\<lparr>sw := NewSwitch\<lparr>sw_running := True\<rparr>\<rparr>]\<rparr>"

text \<open>The node after committee 7 was registered and not started; a registry whose service
  of committee 7 is started (switch, event bus and health manager running); and a service
  whose table still holds the resolved entry of member A while the validator set of its
  state agent does not hold A any more.\<close>

definition registered7 :: Node where
  "registered7 = nodeAfter testNode (PutCommittee testExt testNode committee7)"

definition startedService :: service where
  "startedService =
     testService\<lparr>sw := NewSwitch\<lparr>sw_running := True\<rparr>,
                 eventBus := \<lparr>eb_running = True\<rparr>,
                 healthMgr := (NewHealthMgr 7)\<lparr>hm_running := True\<rparr>\<rparr>"

definition startedRegistry :: Node where
  "startedRegistry = testNode\<lparr>services := [7 \<mapsto> startedService]\<rparr>"

definition staleAgent :: StateAgentImpl where
  "staleAgent =
     \<lparr>GetValidator = map (\<lambda>k. NewValidator testExt k 1) [keySelf, keyB],
      Priv = None, EndHeight = 0\<rparr>"

definition staleService :: service where
  "staleService = testService\<lparr>sa := Some staleAgent\<rparr>"

definition busFails :: ext where
  "busFails = testExt\<lparr>EventBusStart := (\<lambda>eb. Some (External ''event bus''))\<rparr>"

definition asksStop :: ext where
  "asksStop = testExt\<lparr>UpdateValidatorSet := (\<lambda>cs info. (True, cs))\<rparr>"

section \<open>Properties\<close>

subsection \<open>Hexadecimal identities\<close>

lemma fromHexChar_hextable:
  assumes "n < 16"
  shows "fromHexChar (hextable ! n) = Some n"
proof -
  have "\<forall>k\<in>{..<16}. fromHexChar (hextable ! k) = Some k"
    by (simp add: lessThan_nat_numeral lessThan_Suc fromHexChar_def hextable_def)
  with assms show ?thesis by simp
qed

lemma decode_encodeByte:
  "DecodeString (encodeByte b @ cs) = map_option ((#) b) (DecodeString cs)"
proof -
  have "unat b < 256" using unsigned_less [of b] by simp
  then have hi: "unat b div 16 < 16" and lo: "unat b mod 16 < 16" by simp_all
  have w: "word_of_nat (unat b div 16 * 16 + unat b mod 16) = b" by simp
  show ?thesis
    by (simp add: encodeByte_def fromHexChar_hextable [OF hi] fromHexChar_hextable [OF lo] w
        split: option.splits)
qed

text \<open>Decoding undoes encoding, so an identity stands for one address only.\<close>

lemma hex_roundtrip: "DecodeString (EncodeToString bs) = Some bs"
  by (induction bs) (simp_all add: EncodeToString_def decode_encodeByte)

lemma EncodeToString_inj:
  assumes "EncodeToString a = EncodeToString b"
  shows "a = b"
proof -
  have "Some a = DecodeString (EncodeToString a)" by (simp add: hex_roundtrip)
  also have "\<dots> = Some b" by (simp add: assms hex_roundtrip)
  finally show ?thesis by simp
qed

subsection \<open>Evaluating the concrete world\<close>

lemmas world_defs =
  testExt_def keyBytes_def keySelf_def keyA_def keyB_def testValidators_def testAgent_def
  NewValidator_def NewValidatorSet_def HasAddress_def

lemma encode_keys:
  "EncodeToString [1, 1] = ''0101''" "EncodeToString [2, 2] = ''0202''"
  "EncodeToString [3, 3] = ''0303''"
  by (simp_all add: EncodeToString_def encodeByte_def hextable_def)

lemma Uint64_7: "Uint64 7 = 7"
  by (simp add: Uint64_def)

lemma parity_7: "Uint64 7 mod 2 \<noteq> 0"
  by (simp add: Uint64_7)

subsection \<open>putNodes\<close>

lemma putNode_skip:
  assumes "sa (fst su) = Some st" "\<not> authorized E (GetValidator st) node"
  shows "putNode E cid su node = Done su"
  using assms
  by (auto simp: putNode_def authorized_def derivedAddress_def Let_def split: option.splits)

lemma putNode_Done:
  assumes "sa (fst su) = Some st"
  shows "\<exists>su'. putNode E cid su node = Done su'"
  using assms by (auto simp: putNode_def Let_def split: option.splits)

lemma putNode_sa:
  assumes "putNode E cid su node = Done su'"
  shows "sa (fst su') = sa (fst su)"
  using assms by (auto simp: putNode_def Let_def split: option.splits if_splits)

lemma putNode_consensusState:
  assumes "putNode E cid su node = Done su'"
  shows "consensusState (fst su') = consensusState (fst su)"
  using assms by (auto simp: putNode_def Let_def split: option.splits if_splits)

lemma putNode_table:
  assumes "putNode E cid su node = Done su'" "sa (fst su) = Some st"
    "nodeTable (fst su') i \<noteq> nodeTable (fst su) i"
  shows "\<exists>a. derivedAddress E node = Some a \<and> HasAddress (GetValidator st) a \<and>
             i = EncodeToString a \<and> nodeTable (fst su) i = Some None"
  using assms
  by (auto simp: putNode_def derivedAddress_def Let_def split: option.splits if_splits)

lemma putNode_resolved:
  assumes "putNode E cid su node = Done su'" "nodeTable (fst su) i = Some (Some v)"
  shows "nodeTable (fst su') i = Some (Some v)"
  using assms
  by (auto simp: putNode_def Let_def split: option.splits if_splits)

lemma putNode_health:
  assumes "putNode E cid su node = Done su'" "sa (fst su) = Some st"
  shows "HealthInfo (healthMgr (fst su')) =
         HealthInfo (healthMgr (fst su)) @
           (case derivedAddress E node of
              None \<Rightarrow> []
            | Some a \<Rightarrow>
                if HasAddress (GetValidator st) a
                then [(EncodeToString a, node_IP node, portOf cid node, node_Publickey node)]
                else [])"
  using assms
  by (auto simp: putNode_def derivedAddress_def portOf_def UpdataHealthInfo_def Let_def
      split: option.splits if_splits)

text \<open>The loop: it returns once the state agent is there, it keeps the state agent and the
  consensus state, and candidates that are not let through can be struck from the batch.\<close>

lemma putNodes_loop_cons:
  assumes "putNodes_loop E cid su (node # nodes) = Done su'"
  obtains su1 where "putNode E cid su node = Done su1" "putNodes_loop E cid su1 nodes = Done su'"
  using assms by (auto split: exec.splits)

lemma putNodes_loop_Done:
  assumes "sa (fst su) = Some st"
  shows "\<exists>su'. putNodes_loop E cid su nodes = Done su'"
  using assms
proof (induction nodes arbitrary: su)
  case Nil
  then show ?case by simp
next
  case (Cons node nodes)
  obtain su1 where d: "putNode E cid su node = Done su1"
    using putNode_Done [OF Cons.prems] by blast
  then have "sa (fst su1) = Some st" using putNode_sa Cons.prems by metis
  with Cons.IH d show ?case by simp
qed

lemma putNodes_loop_inv:
  assumes "putNodes_loop E cid su nodes = Done su'"
  shows "sa (fst su') = sa (fst su) \<and> consensusState (fst su') = consensusState (fst su)"
  using assms
proof (induction nodes arbitrary: su)
  case Nil
  then show ?case by simp
next
  case (Cons node nodes)
  from Cons.prems obtain su1 where
    d: "putNode E cid su node = Done su1" and l: "putNodes_loop E cid su1 nodes = Done su'"
    by (rule putNodes_loop_cons)
  from Cons.IH [OF l] putNode_sa [OF d] putNode_consensusState [OF d] show ?case by simp
qed

lemma putNodes_loop_filter:
  assumes "sa (fst su) = Some st"
  shows "putNodes_loop E cid su nodes =
         putNodes_loop E cid su (filter (authorized E (GetValidator st)) nodes)"
  using assms
proof (induction nodes arbitrary: su)
  case Nil
  then show ?case by simp
next
  case (Cons node nodes)
  show ?case
  proof (cases "authorized E (GetValidator st) node")
    case False
    with Cons.prems have "putNode E cid su node = Done su" by (simp add: putNode_skip)
    with False Cons show ?thesis by simp
  next
    case True
    obtain su1 where d: "putNode E cid su node = Done su1"
      using putNode_Done [OF Cons.prems] by blast
    then have "sa (fst su1) = Some st" using putNode_sa Cons.prems by metis
    with Cons.IH have "putNodes_loop E cid su1 nodes =
         putNodes_loop E cid su1 (filter (authorized E (GetValidator st)) nodes)" by blast
    with True d show ?thesis by simp
  qed
qed

lemma putNodes_loop_table:
  assumes "putNodes_loop E cid su nodes = Done su'" "sa (fst su) = Some st"
    "nodeTable (fst su') i \<noteq> nodeTable (fst su) i"
  shows "\<exists>c a. c \<in> set nodes \<and> derivedAddress E c = Some a \<and>
            HasAddress (GetValidator st) a \<and> i = EncodeToString a"
  using assms
proof (induction nodes arbitrary: su)
  case Nil
  then show ?case by simp
next
  case (Cons node nodes)
  from Cons.prems(1) obtain su1 where
    d: "putNode E cid su node = Done su1" and l: "putNodes_loop E cid su1 nodes = Done su'"
    by (rule putNodes_loop_cons)
  have s1: "sa (fst su1) = Some st" using putNode_sa [OF d] Cons.prems(2) by simp
  show ?case
  proof (cases "nodeTable (fst su') i = nodeTable (fst su1) i")
    case True
    with Cons.prems(3) have "nodeTable (fst su1) i \<noteq> nodeTable (fst su) i" by simp
    from putNode_table [OF d Cons.prems(2) this] show ?thesis by auto
  next
    case False
    from Cons.IH [OF l s1 False] show ?thesis by auto
  qed
qed

lemma putNodes_loop_resolved:
  assumes "putNodes_loop E cid su nodes = Done su'" "nodeTable (fst su) i = Some (Some v)"
  shows "nodeTable (fst su') i = Some (Some v)"
  using assms
proof (induction nodes arbitrary: su)
  case Nil
  then show ?case by simp
next
  case (Cons node nodes)
  from Cons.prems(1) obtain su1 where
    d: "putNode E cid su node = Done su1" and l: "putNodes_loop E cid su1 nodes = Done su'"
    by (rule putNodes_loop_cons)
  from Cons.IH [OF l putNode_resolved [OF d Cons.prems(2)]] show ?case .
qed

lemma putNodes_loop_health_log:
  assumes "putNodes_loop E cid su nodes = Done su'" "sa (fst su) = Some st"
  shows "HealthInfo (healthMgr (fst su')) =
         HealthInfo (healthMgr (fst su)) @
           concat (map (\<lambda>node. case derivedAddress E node of
                          None \<Rightarrow> []
                        | Some a \<Rightarrow>
                            if HasAddress (GetValidator st) a
                            then [(EncodeToString a, node_IP node, portOf cid node,
                                   node_Publickey node)]
                            else []) nodes)"
  using assms
proof (induction nodes arbitrary: su)
  case Nil
  then show ?case by simp
next
  case (Cons n0 nodes)
  from Cons.prems(1) obtain su1 where
    d: "putNode E cid su n0 = Done su1" and l: "putNodes_loop E cid su1 nodes = Done su'"
    by (rule putNodes_loop_cons)
  have s1: "sa (fst su1) = Some st" using putNode_sa [OF d] Cons.prems(2) by simp
  from Cons.IH [OF l s1] putNode_health [OF d Cons.prems(2)] show ?case by simp
qed

lemma putNodes_loop_health:
  assumes "putNodes_loop E cid su nodes = Done su'" "sa (fst su) = Some st"
    "c \<in> set nodes" "derivedAddress E c = Some a" "HasAddress (GetValidator st) a"
  shows "\<exists>pre post. HealthInfo (healthMgr (fst su')) =
            HealthInfo (healthMgr (fst su)) @ pre @
            [(EncodeToString a, node_IP c, portOf cid c, node_Publickey c)] @ post"
proof -
  let ?f = "\<lambda>node. case derivedAddress E node of
                      None \<Rightarrow> []
                    | Some a \<Rightarrow>
                        if HasAddress (GetValidator st) a
                        then [(EncodeToString a, node_IP node, portOf cid node,
                               node_Publickey node)]
                        else []"
  let ?e = "(EncodeToString a, node_IP c, portOf cid c, node_Publickey c)"
  have "?e \<in> set (?f c)" using assms(4,5) by simp
  with assms(3) have "?e \<in> set (concat (map ?f nodes))" by auto
  then obtain pre post where "concat (map ?f nodes) = pre @ ?e # post"
    by (meson split_list)
  with putNodes_loop_health_log [OF assms(1,2)] show ?thesis by auto
qed

text \<open>From the loop to \<^verbatim>\<open>putNodes\<close>: what follows the loop touches \<open>updateChan\<close> only.\<close>

lemma putNodes_Done_loop:
  assumes "putNodes E cid s nodes = Done s'"
  shows "\<exists>s1 u. putNodes_loop E cid (s, False) nodes = Done (s1, u) \<and>
           nodeTable s' = nodeTable s1 \<and> healthMgr s' = healthMgr s1 \<and> sa s' = sa s1 \<and>
           consensusState s' = consensusState s1"
  using assms
  by (cases nodes) (auto simp: putNodes_def split: exec.splits option.splits if_splits)

lemma putNodes_returns:
  assumes "sa s = Some st" "consensusState s = Some cs"
  shows "\<exists>s'. putNodes E cid s nodes = Done s'"
proof -
  obtain s1 u where l: "putNodes_loop E cid (s, False) nodes = Done (s1, u)"
    using putNodes_loop_Done [of "(s, False)" st E cid nodes] assms(1) by auto
  from putNodes_loop_inv [OF l] assms have "sa s1 = Some st" "consensusState s1 = Some cs"
    by simp_all
  with l show ?thesis
    by (auto simp: putNodes_def split: option.splits)
qed

lemma putNodes_inv:
  assumes "putNodes E cid s nodes = Done s'"
  shows "sa s' = sa s \<and> consensusState s' = consensusState s"
proof -
  from putNodes_Done_loop [OF assms] obtain s1 u where
    l: "putNodes_loop E cid (s, False) nodes = Done (s1, u)"
    and e: "sa s' = sa s1" "consensusState s' = consensusState s1" by blast
  from putNodes_loop_inv [OF l] e show ?thesis by simp
qed

lemma putNodes_filter:
  assumes "sa s = Some st"
  shows "putNodes E cid s nodes = putNodes E cid s (filter (authorized E (GetValidator st)) nodes)"
proof (cases "filter (authorized E (GetValidator st)) nodes = []")
  case True
  have "putNodes_loop E cid (s, False) nodes = Done (s, False)"
    using putNodes_loop_filter [of "(s, False)" st E cid nodes] assms True by simp
  then have "putNodes E cid s nodes = Done s" by (simp add: putNodes_def)
  with True show ?thesis by (simp add: putNodes_def)
next
  case False
  then have "nodes \<noteq> []" by auto
  with False putNodes_loop_filter [of "(s, False)" st E cid nodes] assms
  show ?thesis by (simp add: putNodes_def)
qed

lemma putNodes_table:
  assumes "putNodes E cid s nodes = Done s'" "sa s = Some st"
    "nodeTable s' i \<noteq> nodeTable s i"
  shows "\<exists>c a. c \<in> set nodes \<and> derivedAddress E c = Some a \<and>
            HasAddress (GetValidator st) a \<and> i = EncodeToString a"
proof -
  from putNodes_Done_loop [OF assms(1)] obtain s1 u1 where
    l: "putNodes_loop E cid (s, False) nodes = Done (s1, u1)"
    and t: "nodeTable s' = nodeTable s1" by blast
  from assms(3) t have "nodeTable (fst (s1, u1)) i \<noteq> nodeTable (fst (s, False)) i" by simp
  from putNodes_loop_table [OF l _ this] assms(2) show ?thesis by simp
qed

lemma putNodes_resolved:
  assumes "putNodes E cid s nodes = Done s'" "nodeTable s i = Some (Some v)"
  shows "nodeTable s' i = Some (Some v)"
proof -
  from putNodes_Done_loop [OF assms(1)] obtain s1 u1 where
    l: "putNodes_loop E cid (s, False) nodes = Done (s1, u1)"
    and t: "nodeTable s' = nodeTable s1" by blast
  have "nodeTable (fst (s1, u1)) i = Some (Some v)"
    by (rule putNodes_loop_resolved [OF l]) (simp add: assms(2))
  with t show ?thesis by simp
qed

lemma putNodes_health:
  assumes "putNodes E cid s nodes = Done s'" "sa s = Some st"
    "c \<in> set nodes" "derivedAddress E c = Some a" "HasAddress (GetValidator st) a"
  shows "\<exists>pre post. HealthInfo (healthMgr s') =
            HealthInfo (healthMgr s) @ pre @
            [(EncodeToString a, node_IP c, portOf cid c, node_Publickey c)] @ post"
proof -
  from putNodes_Done_loop [OF assms(1)] obtain s1 u1 where
    l: "putNodes_loop E cid (s, False) nodes = Done (s1, u1)"
    and h: "healthMgr s' = healthMgr s1" by blast
  have "\<exists>pre post. HealthInfo (healthMgr (fst (s1, u1))) =
            HealthInfo (healthMgr (fst (s, False))) @ pre @
            [(EncodeToString a, node_IP c, portOf cid c, node_Publickey c)] @ post"
    by (rule putNodes_loop_health [OF l _ assms(3,4,5)]) (simp add: assms(2))
  with h show ?thesis by simp
qed

text \<open>\<^verbatim>\<open>Node.PutNodes\<close> hands a batch that is not empty to \<^verbatim>\<open>putNodes\<close> of the registered
  service and stores what comes back.\<close>

lemma PutNodes_registered:
  assumes "services n (Uint64 i) = Some s" "nodes \<noteq> []" "putNodes E i s nodes = Done s'"
  shows "PutNodes E n (Some i) nodes =
         Done (n\<lparr>services := (services n)(Uint64 i \<mapsto> s')\<rparr>, None)"
  using assms by (simp add: PutNodes_def)

text \<open>The log of the health manager after \<^verbatim>\<open>putNodes\<close>: the records of the candidates of
  the batch that are let through, in the order of the batch.\<close>

lemma putNodes_health_log:
  assumes "putNodes E cid s nodes = Done s'" "sa s = Some st"
  shows "HealthInfo (healthMgr s') =
         HealthInfo (healthMgr s) @ concat (map (healthRecords E cid (GetValidator st)) nodes)"
proof -
  from putNodes_Done_loop [OF assms(1)] obtain s1 u1 where
    l: "putNodes_loop E cid (s, False) nodes = Done (s1, u1)"
    and h: "healthMgr s' = healthMgr s1" by blast
  have "HealthInfo (healthMgr (fst (s1, u1))) =
        HealthInfo (healthMgr (fst (s, False))) @
          concat (map (healthRecords E cid (GetValidator st)) nodes)"
    unfolding healthRecords_def [abs_def]
    by (rule putNodes_loop_health_log [OF l]) (simp add: assms(2))
  with h show ?thesis by simp
qed

lemma putNodes_wiredService:
  assumes "putNodes E cid s nodes = Done s'" "wiredService s"
  shows "wiredService s'"
  using putNodes_inv [OF assms(1)] assms(2) by (simp add: wiredService_def)

text \<open>
  C1. Let the state agent of a service report the validator set \<open>V\<close>. A batch given to
  \<^verbatim>\<open>putNodes\<close> has the same effect as the batch without the candidates whose key is malformed
  or whose derived address is not in \<open>V\<close>: such a candidate leaves the whole service, and so
  the node table, as it is, and the loop goes on with the candidates after it. The call
  returns, and an entry of the table that differs afterwards is the entry of the identity
  of some candidate of the batch whose derived address is in \<open>V\<close>.
\<close>

theorem putNodes_admits_only_validators:
  assumes "sa s = Some st" "consensusState s = Some cs"
  shows "putNodes E cid s nodes =
           putNodes E cid s (filter (authorized E (GetValidator st)) nodes)
       \<and> (\<not> authorized E (GetValidator st) node \<longrightarrow>
            putNode E cid (s, u) node = Done (s, u) \<and>
            putNodes_loop E cid (s, u) (node # rest) = putNodes_loop E cid (s, u) rest)
       \<and> (\<exists>s'. putNodes E cid s nodes = Done s' \<and>
            (\<forall>i. nodeTable s' i \<noteq> nodeTable s i \<longrightarrow>
               (\<exists>c a. c \<in> set nodes \<and> derivedAddress E c = Some a \<and>
                  HasAddress (GetValidator st) a \<and> i = EncodeToString a)))"
proof (intro conjI impI)
  show "putNodes E cid s nodes =
          putNodes E cid s (filter (authorized E (GetValidator st)) nodes)"
    by (rule putNodes_filter [OF assms(1)])
next
  assume "\<not> authorized E (GetValidator st) node"
  then show "putNode E cid (s, u) node = Done (s, u)"
    using assms(1) by (simp add: putNode_skip)
  then show "putNodes_loop E cid (s, u) (node # rest) = putNodes_loop E cid (s, u) rest"
    by simp
next
  obtain s' where d: "putNodes E cid s nodes = Done s'"
    using putNodes_returns [OF assms] by blast
  then show "\<exists>s'. putNodes E cid s nodes = Done s' \<and>
            (\<forall>i. nodeTable s' i \<noteq> nodeTable s i \<longrightarrow>
               (\<exists>c a. c \<in> set nodes \<and> derivedAddress E c = Some a \<and>
                  HasAddress (GetValidator st) a \<and> i = EncodeToString a))"
    using putNodes_table [OF d assms(1)] by blast
qed

text \<open>Witness: the service of committee 7 is given a malformed candidate, a candidate outside
  the committee and the endpoint of member B. Only the placeholder of B is resolved.\<close>

theorem putNodes_admits_only_validators_witness:
  "sa testService = Some testAgent \<and>
   \<not> authorized testExt (GetValidator testAgent) endpointX \<and>
   \<not> authorized testExt (GetValidator testAgent) endpointBad \<and>
   putNodes testExt 7 testService [endpointBad, endpointX, endpointB] =
     putNodes testExt 7 testService [endpointB] \<and>
   putNode testExt 7 (testService, False) endpointX = Done (testService, False) \<and>
   (\<exists>s'. putNodes testExt 7 testService [endpointBad, endpointX, endpointB] = Done s' \<and>
      nodeTable s' ''0303'' \<noteq> nodeTable testService ''0303'' \<and>
      nodeTable s' ''0202'' = nodeTable testService ''0202'') \<and>
   derivedAddress testExt endpointB = Some [3, 3] \<and>
   HasAddress (GetValidator testAgent) [3, 3] \<and> EncodeToString [3, 3] = ''0303''"
proof -
  have a: "sa testService = Some testAgent"
    and c: "consensusState testService =
              Some \<lparr>Height = 0, Validators = testValidators, Votes = [],
                    cs_privValidator = None, cs_healthMgr = True\<rparr>"
    by (simp_all add: testService_def)
  have x: "\<not> authorized testExt (GetValidator testAgent) endpointX"
    and b: "\<not> authorized testExt (GetValidator testAgent) endpointBad"
    and ok: "authorized testExt (GetValidator testAgent) endpointB"
    by (simp_all add: authorized_def derivedAddress_def endpointX_def endpointBad_def
        endpointB_def world_defs)
  have f: "filter (authorized testExt (GetValidator testAgent))
             [endpointBad, endpointX, endpointB] = [endpointB]"
    using x b ok by simp
  note T = putNodes_admits_only_validators
    [OF a c, of testExt 7 "[endpointBad, endpointX, endpointB]" endpointX False "[]"]
  have eq: "putNodes testExt 7 testService [endpointBad, endpointX, endpointB] =
     putNodes testExt 7 testService [endpointB]"
    using T f by simp
  have skip: "putNode testExt 7 (testService, False) endpointX = Done (testService, False)"
    using T x by simp
  have d: "derivedAddress testExt endpointB = Some [3, 3]"
    by (simp add: derivedAddress_def endpointB_def world_defs)
  have h: "HasAddress (GetValidator testAgent) [3, 3]"
    by (simp add: world_defs)
  have run: "\<exists>s'. putNodes testExt 7 testService [endpointB] = Done s' \<and>
      nodeTable s' ''0303'' \<noteq> nodeTable testService ''0303'' \<and>
      nodeTable s' ''0202'' = nodeTable testService ''0202''"
    by (simp add: putNodes_def putNode_def Let_def testService_def endpointB_def world_defs
        encode_keys parity_7 UpdataHealthInfo_def)
  show ?thesis using a x b eq skip run d h encode_keys(3) by simp
qed

text \<open>
  C2, as claimed: once an entry is resolved, every later \<^verbatim>\<open>putNodes\<close> with an endpoint for
  the same identity leaves the entry as it is, and the health manager is still updated for
  that candidate. The second part fails where the validator set of the state agent does not
  hold the identity any more while the table, which is not rebuilt with the validator set,
  still holds its resolved entry: the endpoint of member A, whose key parses and derives the
  identity of the resolved entry, is skipped at the test of the validator set, and the call
  returns the service as it was, health manager included.
\<close>

theorem putNodes_stale_identity_counterexample:
  "nodeTable staleService ''0202'' = Some (Some resolvedA) \<and>
   derivedAddress testExt endpointA2 = Some [2, 2] \<and>
   EncodeToString [2, 2] = ''0202'' \<and>
   sa staleService = Some staleAgent \<and>
   \<not> HasAddress (GetValidator staleAgent) [2, 2] \<and>
   putNodes testExt 7 staleService [endpointA2] = Done staleService"
proof -
  have r: "nodeTable staleService ''0202'' = Some (Some resolvedA)"
    and a: "sa staleService = Some staleAgent"
    by (simp_all add: staleService_def testService_def)
  have d: "derivedAddress testExt endpointA2 = Some [2, 2]"
    by (simp add: derivedAddress_def endpointA2_def world_defs)
  have n: "\<not> HasAddress (GetValidator staleAgent) [2, 2]"
    by (simp add: staleAgent_def world_defs)
  with d have "\<not> authorized testExt (GetValidator staleAgent) endpointA2"
    by (simp add: authorized_def)
  with a have "putNode testExt 7 (staleService, False) endpointA2 = Done (staleService, False)"
    by (simp add: putNode_skip)
  then have p: "putNodes testExt 7 staleService [endpointA2] = Done staleService"
    by (simp add: putNodes_def)
  show ?thesis using r d encode_keys(2) a n p by blast
qed

text \<open>
  C2, amended. Let the table of a service, with its state agent and its consensus state,
  hold a resolved entry \<open>v\<close> for the identity \<open>i\<close>, and let a batch given to \<^verbatim>\<open>putNodes\<close>
  contain a candidate \<open>c\<close> for that identity: its key parses and the address derived from it
  has the hexadecimal form \<open>i\<close>. Then the call returns and the entry of \<open>i\<close> is still \<open>v\<close>
  (address, IP, port and connected flag). The log of the health manager grows by the records
  of the candidates of the batch, in their order: for \<open>c\<close> that is its record when its
  address is in the validator set of the state agent, and nothing when it is not.
\<close>

theorem putNodes_resolved_write_once:
  assumes "sa s = Some st" "consensusState s = Some cs" "nodeTable s i = Some (Some v)"
    "c \<in> set nodes" "derivedAddress E c = Some a" "EncodeToString a = i"
  shows "\<exists>s'. putNodes E cid s nodes = Done s' \<and> nodeTable s' i = Some (Some v) \<and>
         HealthInfo (healthMgr s') =
           HealthInfo (healthMgr s) @
           concat (map (healthRecords E cid (GetValidator st)) nodes) \<and>
         (HasAddress (GetValidator st) a \<longrightarrow>
            healthRecords E cid (GetValidator st) c =
              [(i, node_IP c, portOf cid c, node_Publickey c)] \<and>
            (\<exists>pre post. HealthInfo (healthMgr s') =
               HealthInfo (healthMgr s) @ pre @
               [(i, node_IP c, portOf cid c, node_Publickey c)] @ post)) \<and>
         (\<not> HasAddress (GetValidator st) a \<longrightarrow>
            healthRecords E cid (GetValidator st) c = [])"
proof -
  obtain s' where d: "putNodes E cid s nodes = Done s'"
    using putNodes_returns [OF assms(1,2)] by blast
  have t: "nodeTable s' i = Some (Some v)"
    by (rule putNodes_resolved [OF d assms(3)])
  have l: "HealthInfo (healthMgr s') =
           HealthInfo (healthMgr s) @
           concat (map (healthRecords E cid (GetValidator st)) nodes)"
    by (rule putNodes_health_log [OF d assms(1)])
  have y: "healthRecords E cid (GetValidator st) c =
              [(i, node_IP c, portOf cid c, node_Publickey c)]"
    if "HasAddress (GetValidator st) a"
    using that assms(5,6) by (simp add: healthRecords_def)
  have e: "\<exists>pre post. HealthInfo (healthMgr s') =
               HealthInfo (healthMgr s) @ pre @
               [(i, node_IP c, portOf cid c, node_Publickey c)] @ post"
    if "HasAddress (GetValidator st) a"
    using putNodes_health [OF d assms(1,4,5) that] assms(6) by simp
  have z: "healthRecords E cid (GetValidator st) c = []"
    if "\<not> HasAddress (GetValidator st) a"
    using that assms(5) by (simp add: healthRecords_def)
  show ?thesis using d t l y e z by blast
qed

text \<open>Witness: member A is resolved at 1.2.3.4 and is in the validator set; a later endpoint
  for A at 9.9.9.9 leaves the entry as it is and is recorded by the health manager.\<close>

theorem putNodes_resolved_write_once_witness:
  "sa testService = Some testAgent \<and>
   consensusState testService =
     Some \<lparr>Height = 0, Validators = testValidators, Votes = [],
           cs_privValidator = None, cs_healthMgr = True\<rparr> \<and>
   nodeTable testService ''0202'' = Some (Some resolvedA) \<and>
   endpointA2 \<in> set [endpointA2] \<and>
   derivedAddress testExt endpointA2 = Some [2, 2] \<and>
   EncodeToString [2, 2] = ''0202'' \<and>
   HasAddress (GetValidator testAgent) [2, 2] \<and>
   (\<exists>s'. putNodes testExt 7 testService [endpointA2] = Done s' \<and>
      nodeTable s' ''0202'' = Some (Some resolvedA) \<and>
      HealthInfo (healthMgr s') =
        HealthInfo (healthMgr testService) @ [(''0202'', ''9.9.9.9'', 40404, [2, 2])])"
proof -
  have a: "sa testService = Some testAgent"
    and c: "consensusState testService =
              Some \<lparr>Height = 0, Validators = testValidators, Votes = [],
                    cs_privValidator = None, cs_healthMgr = True\<rparr>"
    and r: "nodeTable testService ''0202'' = Some (Some resolvedA)"
    by (simp_all add: testService_def)
  have m: "endpointA2 \<in> set [endpointA2]" by simp
  have d: "derivedAddress testExt endpointA2 = Some [2, 2]"
    by (simp add: derivedAddress_def endpointA2_def world_defs)
  have h: "HasAddress (GetValidator testAgent) [2, 2]"
    by (simp add: world_defs)
  have p: "portOf 7 endpointA2 = 40404" "node_IP endpointA2 = ''9.9.9.9''"
    "node_Publickey endpointA2 = [2, 2]"
    by (simp_all add: portOf_def parity_7 endpointA2_def)
  from putNodes_resolved_write_once [OF a c r m d encode_keys(2), of 7] h
  obtain s' where
    s': "putNodes testExt 7 testService [endpointA2] = Done s'"
      "nodeTable s' ''0202'' = Some (Some resolvedA)"
      "HealthInfo (healthMgr s') =
         HealthInfo (healthMgr testService) @
         concat (map (healthRecords testExt 7 (GetValidator testAgent)) [endpointA2])"
      "healthRecords testExt 7 (GetValidator testAgent) endpointA2 =
         [(''0202'', node_IP endpointA2, portOf 7 endpointA2, node_Publickey endpointA2)]"
    by blast
  from s'(3,4) have "HealthInfo (healthMgr s') =
        HealthInfo (healthMgr testService) @ [(''0202'', ''9.9.9.9'', 40404, [2, 2])]"
    by (simp add: p)
  with s'(1,2) a c r m d h encode_keys(2) show ?thesis by blast
qed

subsection \<open>updateNodes\<close>

lemma connTo_other:
  assumes "k \<noteq> k'"
  shows "nodeTable (connTo E s k' v) k = nodeTable s k"
  using assms by (simp add: connTo_def Let_def split: option.splits)

lemma connTo_consensusState:
  "consensusState (connTo E s k v) = consensusState s"
  by (simp add: connTo_def Let_def split: option.splits)

lemma connTo_Dialed:
  "Dialed (sw (connTo E s k v)) = Dialed (sw s) @ (if Enable v then [] else [Adrress v])"
  by (simp add: connTo_def Let_def split: option.splits)

lemma entriesOf_cong:
  assumes "\<forall>k\<in>set ks. t k = t' k"
  shows "entriesOf t ks = entriesOf t' ks"
  using assms by (induction ks) (auto simp: entriesOf_def)

text \<open>On a table without placeholders one pass returns, and the addresses it dials are those
  of the entries that are not connected and whose identity is in the validator set of the
  consensus state, each once, whatever the order of the keys.\<close>

lemma updateNodes_dials:
  assumes "distinct ks" "\<forall>k\<in>set ks. nodeTable s k \<noteq> Some None" "consensusState s = Some cs"
  shows "\<exists>s'. updateNodes E s ks = Done s' \<and>
           Dialed (sw s') = Dialed (sw s) @
              map Adrress (filter (dialable (Validators cs)) (entriesOf (nodeTable s) ks))"
  using assms
proof (induction ks arbitrary: s)
  case Nil
  then show ?case by (simp add: entriesOf_def)
next
  case (Cons k ks)
  have d: "distinct ks" and nk: "k \<notin> set ks" using Cons.prems(1) by auto
  have np: "\<forall>k\<in>set ks. nodeTable s k \<noteq> Some None" using Cons.prems(2) by simp
  have split: "entriesOf (nodeTable s) (k # ks) =
      (case nodeTable s k of Some (Some v) \<Rightarrow> [v] | _ \<Rightarrow> []) @ entriesOf (nodeTable s) ks"
    by (simp add: entriesOf_def)
  from Cons.IH [OF d np Cons.prems(3)] obtain s' where
    rest: "updateNodes E s ks = Done s'"
      "Dialed (sw s') = Dialed (sw s) @
         map Adrress (filter (dialable (Validators cs)) (entriesOf (nodeTable s) ks))"
    by blast
  show ?case
  proof (cases "nodeTable s k")
    case None
    with rest split show ?thesis by simp
  next
    case (Some e)
    with Cons.prems(2) obtain v where v: "nodeTable s k = Some (Some v)" by (cases e) auto
    show ?thesis
    proof (cases "dialable (Validators cs) v")
      case False
      then have "updateNodes E s (k # ks) = updateNodes E s ks"
        using v Cons.prems(3) by (auto simp: dialable_def Let_def split: option.splits)
      with rest split v False show ?thesis by simp
    next
      case True
      let ?s1 = "connTo E s k v"
      from True have step: "updateNodes E s (k # ks) = updateNodes E ?s1 ks"
        using v Cons.prems(3) by (auto simp: dialable_def Let_def split: option.splits)
      have tab: "\<forall>k'\<in>set ks. nodeTable ?s1 k' = nodeTable s k'"
        using nk connTo_other by metis
      then have np1: "\<forall>k\<in>set ks. nodeTable ?s1 k \<noteq> Some None" using np by simp
      have cs1: "consensusState ?s1 = Some cs"
        using Cons.prems(3) by (simp add: connTo_consensusState)
      from Cons.IH [OF d np1 cs1] obtain s'' where
        r: "updateNodes E ?s1 ks = Done s''"
           "Dialed (sw s'') = Dialed (sw ?s1) @
              map Adrress (filter (dialable (Validators cs)) (entriesOf (nodeTable ?s1) ks))"
        by blast
      have e: "entriesOf (nodeTable ?s1) ks = entriesOf (nodeTable s) ks"
        by (rule entriesOf_cong [OF tab])
      have ne: "\<not> Enable v" using True by (simp add: dialable_def)
      show ?thesis using step r e split v True ne by (simp add: connTo_Dialed)
    qed
  qed
qed

text \<open>
  C3. The claim: one pass of \<^verbatim>\<open>updateNodes\<close> dials exactly the entries that are not connected
  and whose identity is in the validator set, for every node table and every order. The
  code does so on a table without placeholders (\<open>updateNodes_dials\<close>). On the table of
  committee 7 that holds the resolved, unconnected entry of member A, which is in the
  validator set, and the placeholder of member B, the pass panics: when B is visited first
  no dial is made at all.
\<close>

theorem updateNodes_placeholder_blocks_dial:
  "nodeTable testService ''0303'' = Some None \<and>
   nodeTable testService ''0202'' = Some (Some resolvedA) \<and>
   dialable testValidators resolvedA \<and>
   updateNodes testExt testService [''0303'', ''0202''] = Panic \<and>
   updateNodes testExt testService [''0202'', ''0303''] = Panic"
proof -
  have p: "nodeTable testService ''0303'' = Some None"
    and r: "nodeTable testService ''0202'' = Some (Some resolvedA)"
    and c: "consensusState testService =
              Some \<lparr>Height = 0, Validators = testValidators, Votes = [],
                    cs_privValidator = None, cs_healthMgr = True\<rparr>"
    by (simp_all add: testService_def)
  have "DecodeString (ID resolvedA) = DecodeString (EncodeToString [2, 2])"
    by (simp add: resolvedA_def encode_keys)
  then have a: "DecodeString (ID resolvedA) = Some [2, 2]"
    by (simp only: hex_roundtrip)
  have v: "HasAddress testValidators [2, 2]" and e: "\<not> Enable resolvedA"
    by (simp_all add: world_defs resolvedA_def)
  have d: "dialable testValidators resolvedA"
    using a v e by (simp add: dialable_def)
  have first: "updateNodes testExt testService [''0303'', ''0202''] = Panic"
    using p by simp
  have "nodeTable (connTo testExt testService ''0202'' resolvedA) ''0303'' = Some None"
    using p by (simp add: connTo_other)
  then have "updateNodes testExt (connTo testExt testService ''0202'' resolvedA) [''0303''] = Panic"
    by simp
  then have second: "updateNodes testExt testService [''0202'', ''0303''] = Panic"
    using r a v e c by simp
  show ?thesis using p r d first second by blast
qed

text \<open>
  C4. When the keys that a pass of \<^verbatim>\<open>updateNodes\<close> visits contain one that the table maps to
  the nil record, the pass panics: \<^verbatim>\<open>v.ID\<close> is read before the condition with \<^verbatim>\<open>v != nil\<close> is
  evaluated, whatever the other entries, the validator set, the outcome of the dials and the
  order of the keys are.
\<close>

theorem updateNodes_placeholder_panics:
  assumes "k \<in> set ks" "nodeTable s k = Some None"
  shows "updateNodes E s ks = Panic"
  using assms
proof (induction ks arbitrary: s)
  case Nil
  then show ?case by simp
next
  case (Cons k' ks)
  show ?case
  proof (cases "k' = k")
    case True
    with Cons.prems show ?thesis by simp
  next
    case False
    with Cons.prems have mem: "k \<in> set ks" by simp
    have same: "updateNodes E s ks = Panic" by (rule Cons.IH [OF mem Cons.prems(2)])
    have "nodeTable (connTo E s k' v) k = Some None" for v
      using connTo_other [of k k'] False Cons.prems(2) by simp
    then have conn: "updateNodes E (connTo E s k' v) ks = Panic" for v
      by (rule Cons.IH [OF mem])
    show ?thesis
      by (simp add: same conn Let_def split: option.splits)
  qed
qed

text \<open>Witness: the table that \<^verbatim>\<open>PutCommittee\<close> builds for committee 7 holds placeholders
  only; a pass over it panics at the first key.\<close>

theorem updateNodes_placeholder_panics_witness:
  "''0101'' \<in> set [''0202'', ''0101'', ''0303''] \<and>
   nodeTable (testService\<lparr>nodeTable := [''0101'' \<mapsto> None, ''0202'' \<mapsto> None, ''0303'' \<mapsto> None]\<rparr>)
     ''0101'' = Some None \<and>
   updateNodes testExt
     (testService\<lparr>nodeTable := [''0101'' \<mapsto> None, ''0202'' \<mapsto> None, ''0303'' \<mapsto> None]\<rparr>)
     [''0202'', ''0101'', ''0303''] = Panic"
  using updateNodes_placeholder_panics
    [of "''0101''" "[''0202'', ''0101'', ''0303'']"
        "testService\<lparr>nodeTable := [''0101'' \<mapsto> None, ''0202'' \<mapsto> None, ''0303'' \<mapsto> None]\<rparr>"
        testExt]
  by simp

subsection \<open>PutCommittee\<close>

lemma fold_placeholders:
  "fold (\<lambda>m tab. tab(f m \<mapsto> None)) ms t = (\<lambda>k. if k \<in> f ` set ms then Some None else t k)"
proof (induction ms arbitrary: t)
  case Nil
  then show ?case by simp
next
  case (Cons m ms)
  have "fold (\<lambda>m tab. tab(f m \<mapsto> None)) (m # ms) t =
        fold (\<lambda>m tab. tab(f m \<mapsto> None)) ms (t(f m \<mapsto> None))"
    by simp
  also have "\<dots> = (\<lambda>k. if k \<in> f ` set ms then Some None else (t(f m \<mapsto> None)) k)"
    by (rule Cons.IH)
  also have "\<dots> = (\<lambda>k. if k \<in> f ` set (m # ms) then Some None else t k)"
    by (auto simp: fun_eq_iff)
  finally show ?case .
qed

lemma dom_placeholders: "dom (\<lambda>k. if k \<in> A then Some None else None) = A"
  by (auto simp: dom_def)

lemma ran_placeholders:
  assumes "A \<noteq> {}"
  shows "ran (\<lambda>k. if k \<in> A then Some None else None) = {None}"
  using assms by (auto simp: ran_def)

lemma makeCommitteeMembers_Some:
  assumes "Members cmm \<noteq> []"
  shows "makeCommitteeMembers E cid (Some ss) cmm =
         Some (\<lambda>k. if k \<in> memberID E ` set (Members cmm) then Some None else None)"
  using assms
  by (simp add: makeCommitteeMembers_def fold_placeholders memberID_def [abs_def])

lemma makeCommitteeMembers_None:
  "makeCommitteeMembers E cid ss cmm = None \<longleftrightarrow> ss = None \<or> Members cmm = []"
  by (simp add: makeCommitteeMembers_def)

text \<open>The accepting path of \<^verbatim>\<open>PutCommittee\<close>, and its three rejections.\<close>

lemma PutCommittee_accept:
  assumes "Id ci = Some i" "Members ci \<noteq> []" "services n (Uint64 i) = None"
    "NewStateAgent E (MakeValidators E ci) (Uint64 (StartHeight ci)) (Uint64 i) = Some st"
  shows "\<exists>s. PutCommittee E n ci = Done (n\<lparr>services := (services n)(Uint64 i \<mapsto> s)\<rparr>, None) \<and>
             nodeTable s = (\<lambda>k. if k \<in> memberID E ` set (Members ci) then Some None else None) \<and>
             sa s = Some st \<and> consensusState s \<noteq> None \<and> \<not> sw_running (sw s)"
proof -
  have m: "makeCommitteeMembers E (Uint64 i) (Some ss) ci =
         Some (\<lambda>k. if k \<in> memberID E ` set (Members ci) then Some None else None)" for ss
    by (rule makeCommitteeMembers_Some [OF assms(2)])
  show ?thesis
    unfolding PutCommittee_def Let_def
    apply (simp add: assms m setNodes_def newNodeService_def NewSwitch_def)
    apply (rule exI)
    apply (rule conjI, rule refl)
    apply simp
    done
qed

lemma PutCommittee_WrongParams:
  assumes "Id ci = None \<or> Members ci = []"
  shows "PutCommittee E n ci = Done (n, Some WrongParams)"
  using assms by (auto simp: PutCommittee_def split: option.splits)

lemma PutCommittee_repeat:
  assumes "Id ci = Some i" "Members ci \<noteq> []" "services n (Uint64 i) \<noteq> None"
  shows "PutCommittee E n ci = Done (n, Some (RepeatID i))"
  using assms by (auto simp: PutCommittee_def split: option.splits)

lemma PutCommittee_NilState:
  assumes "Id ci = Some i" "Members ci \<noteq> []" "services n (Uint64 i) = None"
    "NewStateAgent E (MakeValidators E ci) (Uint64 (StartHeight ci)) (Uint64 i) = None"
  shows "PutCommittee E n ci = Done (n, Some NilState)"
  using assms by (simp add: PutCommittee_def Let_def)

lemma PutCommittee_not_NilCommitteeMembers:
  "PutCommittee E n ci \<noteq> Done (n', Some NilCommitteeMembers)"
  by (auto simp: PutCommittee_def Let_def makeCommitteeMembers_def split: option.splits)

lemma PutCommittee_returns: "\<exists>n' e. PutCommittee E n ci = Done (n', e)"
  by (auto simp: PutCommittee_def Let_def makeCommitteeMembers_def split: option.splits)

lemma PutCommittee_Done_None:
  assumes "PutCommittee E n ci = Done (n', None)"
  shows "\<exists>i st. Id ci = Some i \<and> Members ci \<noteq> [] \<and> services n (Uint64 i) = None \<and>
    NewStateAgent E (MakeValidators E ci) (Uint64 (StartHeight ci)) (Uint64 i) = Some st"
  using assms
  by (auto simp: PutCommittee_def Let_def makeCommitteeMembers_def
      split: option.splits if_splits)

lemma PutCommittee_error_unchanged:
  assumes "PutCommittee E n ci = Done (n', Some e)"
  shows "services n' = services n"
  using assms
  by (auto simp: PutCommittee_def Let_def split: option.splits if_splits)

lemma PutCommittee_table:
  assumes "outcome (PutCommittee E n ci) = Done None" "Id ci = Some i"
  shows "tableOf (nodeAfter n (PutCommittee E n ci)) (Uint64 i) =
           (\<lambda>k. if k \<in> memberID E ` set (Members ci) then Some None else None)
         \<and> Members ci \<noteq> []"
proof -
  from assms(1) obtain n' where d: "PutCommittee E n ci = Done (n', None)"
    by (auto simp: outcome_def split: exec.splits)
  from PutCommittee_Done_None [OF d] assms(2) obtain st where
    h: "Members ci \<noteq> []" "services n (Uint64 i) = None"
    "NewStateAgent E (MakeValidators E ci) (Uint64 (StartHeight ci)) (Uint64 i) = Some st"
    by auto
  from PutCommittee_accept [OF assms(2) h] obtain s where
    s: "PutCommittee E n ci = Done (n\<lparr>services := (services n)(Uint64 i \<mapsto> s)\<rparr>, None)"
    "nodeTable s = (\<lambda>k. if k \<in> memberID E ` set (Members ci) then Some None else None)"
    by blast
  then show ?thesis using h(1) by (simp add: nodeAfter_def tableOf_def)
qed

text \<open>The only test for the local node in \<^verbatim>\<open>PutCommittee\<close> is in the loop that fills the
  working list of the health manager: that list holds the members other than the local
  node, while the node table holds them all (\<open>PutCommittee_accept\<close>). A new service has its
  health manager running; its switch and event bus are not, and nothing is pending on its
  update channel.\<close>

lemma putWorkMembers_Work:
  "Work (putWorkMembers E n ms hm) =
     Work hm @
     map (\<lambda>v. \<lparr>health_ID = pkToP2pID E (Publickey v), health_State = StateUsedFlag,
                health_Val = NewValidator E (Publickey v) 1\<rparr>)
       (filter (\<lambda>v. \<not> PubKeyEquals E (pub (priv n)) (Publickey v)) ms)"
  unfolding putWorkMembers_def
  by (induction ms arbitrary: hm) (simp_all add: PutWorkHealth_def Let_def)

lemma putBackMembers_Work: "Work (putBackMembers E ms hm) = Work hm"
  unfolding putBackMembers_def
  by (induction ms arbitrary: hm) (simp_all add: PutBackHealth_def)

lemma PutCommittee_new_service:
  assumes "Id ci = Some i" "Members ci \<noteq> []" "services n (Uint64 i) = None"
    "NewStateAgent E (MakeValidators E ci) (Uint64 (StartHeight ci)) (Uint64 i) = Some st"
  shows "\<exists>s. PutCommittee E n ci = Done (n\<lparr>services := (services n)(Uint64 i \<mapsto> s)\<rparr>, None) \<and>
             Work (healthMgr s) =
               map (\<lambda>v. \<lparr>health_ID = pkToP2pID E (Publickey v), health_State = StateUsedFlag,
                          health_Val = NewValidator E (Publickey v) 1\<rparr>)
                 (filter (\<lambda>v. \<not> PubKeyEquals E (pub (priv n)) (Publickey v)) (Members ci)) \<and>
             hm_running (healthMgr s) \<and> \<not> sw_running (sw s) \<and> \<not> eb_running (eventBus s) \<and>
             updateChan s = [] \<and> consensusState s \<noteq> None"
proof -
  have m: "makeCommitteeMembers E (Uint64 i) (Some ss) ci =
         Some (\<lambda>k. if k \<in> memberID E ` set (Members ci) then Some None else None)" for ss
    by (rule makeCommitteeMembers_Some [OF assms(2)])
  show ?thesis
    unfolding PutCommittee_def Let_def
    apply (simp add: assms m setNodes_def newNodeService_def NewSwitch_def)
    apply (rule exI)
    apply (rule conjI, rule refl)
    apply (simp add: putBackMembers_Work putWorkMembers_Work NewHealthMgr_def)
    done
qed

text \<open>In the concrete world.\<close>

lemma test_NewStateAgent:
  assumes "Id ci = Some i" "Members ci \<noteq> []"
  shows "NewStateAgent testExt (MakeValidators testExt ci) h c =
         Some \<lparr>GetValidator = map (\<lambda>m. NewValidator testExt (Publickey m) 1) (Members ci),
               Priv = None, EndHeight = 0\<rparr>"
  using assms by (simp add: MakeValidators_def NewValidatorSet_def) (simp add: testExt_def)

lemma test_PutCommittee:
  assumes "Id ci = Some i" "Members ci \<noteq> []"
  shows "outcome (PutCommittee testExt testNode ci) = Done None"
    and "services (nodeAfter testNode (PutCommittee testExt testNode ci)) (Uint64 i) \<noteq> None"
    and "dom (tableOf (nodeAfter testNode (PutCommittee testExt testNode ci)) (Uint64 i)) =
           memberID testExt ` set (Members ci)"
    and "k \<in> memberID testExt ` set (Members ci) \<Longrightarrow>
         tableOf (nodeAfter testNode (PutCommittee testExt testNode ci)) (Uint64 i) k = Some None"
proof -
  have f: "services testNode (Uint64 i) = None" by (simp add: testNode_def NewNode_def)
  from PutCommittee_accept [OF assms f test_NewStateAgent [OF assms]] obtain s where
    s: "PutCommittee testExt testNode ci =
          Done (testNode\<lparr>services := (services testNode)(Uint64 i \<mapsto> s)\<rparr>, None)"
    and t: "nodeTable s =
          (\<lambda>k. if k \<in> memberID testExt ` set (Members ci) then Some None else None)"
    by blast
  show "outcome (PutCommittee testExt testNode ci) = Done None"
    by (simp add: s outcome_def)
  show "services (nodeAfter testNode (PutCommittee testExt testNode ci)) (Uint64 i) \<noteq> None"
    by (simp add: s nodeAfter_def)
  have e: "tableOf (nodeAfter testNode (PutCommittee testExt testNode ci)) (Uint64 i) =
          (\<lambda>k. if k \<in> memberID testExt ` set (Members ci) then Some None else None)"
    by (simp add: s t nodeAfter_def tableOf_def)
  show "dom (tableOf (nodeAfter testNode (PutCommittee testExt testNode ci)) (Uint64 i)) =
           memberID testExt ` set (Members ci)"
    unfolding e by (rule dom_placeholders)
  show "tableOf (nodeAfter testNode (PutCommittee testExt testNode ci)) (Uint64 i) k = Some None"
    if "k \<in> memberID testExt ` set (Members ci)"
    unfolding e using that by simp
qed


lemma test_memberIDs:
  "memberID testExt \<lparr>Publickey = keySelf\<rparr> = ''0101''"
  "memberID testExt \<lparr>Publickey = keyA\<rparr> = ''0202''"
  "memberID testExt \<lparr>Publickey = keyB\<rparr> = ''0303''"
  by (simp_all add: memberID_def world_defs encode_keys)

lemma test_self: "pub (priv testNode) = keySelf"
  by (simp add: testNode_def NewNode_def)

text \<open>
  C5, as claimed: the node table of a new service holds one placeholder per active member
  except the local node, so that a committee of three members, the local node among them,
  gives two entries. It fails on committee 7: the members are the local node, A and B, the
  call succeeds, and the table has three entries, one of them under the identity of the
  local node.
\<close>

theorem PutCommittee_seeds_self_counterexample:
  "Members committee7 = [\<lparr>Publickey = pub (priv testNode)\<rparr>, \<lparr>Publickey = keyA\<rparr>, \<lparr>Publickey = keyB\<rparr>] \<and>
   outcome (PutCommittee testExt testNode committee7) = Done None \<and>
   card (dom (tableOf (nodeAfter testNode (PutCommittee testExt testNode committee7)) 7)) = 3 \<and>
   tableOf (nodeAfter testNode (PutCommittee testExt testNode committee7)) 7
     (memberID testExt \<lparr>Publickey = pub (priv testNode)\<rparr>) = Some None"
proof -
  have i: "Id committee7 = Some 7" and m: "Members committee7 \<noteq> []"
    by (simp_all add: committee7_def)
  have ids: "memberID testExt ` set (Members committee7) = {''0101'', ''0202'', ''0303''}"
    by (simp add: committee7_def test_memberIDs)
  have ms: "Members committee7 =
      [\<lparr>Publickey = pub (priv testNode)\<rparr>, \<lparr>Publickey = keyA\<rparr>, \<lparr>Publickey = keyB\<rparr>]"
    by (simp add: committee7_def test_self)
  have d: "dom (tableOf (nodeAfter testNode (PutCommittee testExt testNode committee7)) 7) =
      {''0101'', ''0202'', ''0303''}"
    using test_PutCommittee(3) [OF i m] by (simp only: Uint64_7 ids)
  have c: "card {''0101'', ''0202'', ''0303''} = 3" by simp
  have "''0101'' \<in> memberID testExt ` set (Members committee7)" by (simp only: ids) simp
  from test_PutCommittee(4) [OF i m this]
  have s: "tableOf (nodeAfter testNode (PutCommittee testExt testNode committee7)) 7
      (memberID testExt \<lparr>Publickey = pub (priv testNode)\<rparr>) = Some None"
    by (simp only: Uint64_7 test_self test_memberIDs)
  show ?thesis using ms test_PutCommittee(1) [OF i m] s by (simp only: d c)
qed

text \<open>
  C5, amended. For every descriptor that \<^verbatim>\<open>PutCommittee\<close> accepts, the node table of the new
  service holds exactly one placeholder for the identity of every active member, the local
  node included: the keys of the table are the identities of the members, and every value is
  the nil record. When the identities of the members are distinct, the table has as many
  entries as the committee has members: three members, one of them the local node, give
  three placeholders.
\<close>

theorem PutCommittee_seeds_every_member:
  assumes "outcome (PutCommittee E n ci) = Done None" "Id ci = Some i"
  shows "dom (tableOf (nodeAfter n (PutCommittee E n ci)) (Uint64 i)) =
           memberID E ` set (Members ci)
       \<and> ran (tableOf (nodeAfter n (PutCommittee E n ci)) (Uint64 i)) = {None}
       \<and> (distinct (map (memberID E) (Members ci)) \<longrightarrow>
            card (dom (tableOf (nodeAfter n (PutCommittee E n ci)) (Uint64 i))) =
              length (Members ci))"
proof -
  from PutCommittee_table [OF assms] have
    t: "tableOf (nodeAfter n (PutCommittee E n ci)) (Uint64 i) =
           (\<lambda>k. if k \<in> memberID E ` set (Members ci) then Some None else None)"
    and ne: "memberID E ` set (Members ci) \<noteq> {}" by simp_all
  have d: "dom (tableOf (nodeAfter n (PutCommittee E n ci)) (Uint64 i)) =
           memberID E ` set (Members ci)"
    unfolding t by (rule dom_placeholders)
  have r: "ran (tableOf (nodeAfter n (PutCommittee E n ci)) (Uint64 i)) = {None}"
    unfolding t by (rule ran_placeholders [OF ne])
  have c: "card (memberID E ` set (Members ci)) = length (Members ci)"
    if "distinct (map (memberID E) (Members ci))"
    using distinct_card [OF that] by simp
  show ?thesis using d r c by simp
qed

theorem PutCommittee_seeds_every_member_witness:
  "outcome (PutCommittee testExt testNode committee7) = Done None \<and>
   Id committee7 = Some 7 \<and>
   distinct (map (memberID testExt) (Members committee7)) \<and>
   dom (tableOf (nodeAfter testNode (PutCommittee testExt testNode committee7)) (Uint64 7)) =
     {''0101'', ''0202'', ''0303''} \<and>
   ran (tableOf (nodeAfter testNode (PutCommittee testExt testNode committee7)) (Uint64 7)) =
     {None} \<and>
   card (dom (tableOf (nodeAfter testNode (PutCommittee testExt testNode committee7))
     (Uint64 7))) = 3"
proof -
  have i: "Id committee7 = Some 7" and m: "Members committee7 \<noteq> []"
    by (simp_all add: committee7_def)
  have o: "outcome (PutCommittee testExt testNode committee7) = Done None"
    by (rule test_PutCommittee(1) [OF i m])
  have ids: "memberID testExt ` set (Members committee7) = {''0101'', ''0202'', ''0303''}"
    by (simp add: committee7_def test_memberIDs)
  have ds: "distinct (map (memberID testExt) (Members committee7))"
    and l: "length (Members committee7) = 3"
    by (simp_all add: committee7_def test_memberIDs)
  from PutCommittee_seeds_every_member [OF o i] ds
  have "dom (tableOf (nodeAfter testNode (PutCommittee testExt testNode committee7))
          (Uint64 7)) = memberID testExt ` set (Members committee7)"
    and "ran (tableOf (nodeAfter testNode (PutCommittee testExt testNode committee7))
          (Uint64 7)) = {None}"
    and "card (dom (tableOf (nodeAfter testNode (PutCommittee testExt testNode committee7))
          (Uint64 7))) = length (Members committee7)"
    by blast+
  then show ?thesis using o i ds by (simp only: ids l)
qed

text \<open>
  C6, as claimed: a descriptor whose seeding gives an empty table, such as the committee
  whose only member is the local node, makes \<^verbatim>\<open>PutCommittee\<close> fail with a construction error
  and registers nothing. It fails on that committee: the call succeeds, and the service is
  registered with a table of one entry, the placeholder of the local node.
\<close>

theorem PutCommittee_self_only_counterexample:
  "Members committeeSelf = [\<lparr>Publickey = pub (priv testNode)\<rparr>] \<and>
   outcome (PutCommittee testExt testNode committeeSelf) = Done None \<and>
   services (nodeAfter testNode (PutCommittee testExt testNode committeeSelf)) 7 \<noteq> None \<and>
   dom (tableOf (nodeAfter testNode (PutCommittee testExt testNode committeeSelf)) 7) =
     {memberID testExt \<lparr>Publickey = pub (priv testNode)\<rparr>}"
proof -
  have i: "Id committeeSelf = Some 7" and m: "Members committeeSelf \<noteq> []"
    by (simp_all add: committeeSelf_def)
  have ids: "memberID testExt ` set (Members committeeSelf) =
      {memberID testExt \<lparr>Publickey = pub (priv testNode)\<rparr>}"
    by (simp add: committeeSelf_def test_self)
  have ms: "Members committeeSelf = [\<lparr>Publickey = pub (priv testNode)\<rparr>]"
    by (simp add: committeeSelf_def test_self)
  have o: "outcome (PutCommittee testExt testNode committeeSelf) = Done None"
    by (rule test_PutCommittee(1) [OF i m])
  have r: "services (nodeAfter testNode (PutCommittee testExt testNode committeeSelf)) 7
          \<noteq> None"
    using test_PutCommittee(2) [OF i m] unfolding Uint64_7 .
  have d: "dom (tableOf (nodeAfter testNode (PutCommittee testExt testNode committeeSelf)) 7) =
      {memberID testExt \<lparr>Publickey = pub (priv testNode)\<rparr>}"
    using test_PutCommittee(3) [OF i m] by (simp only: Uint64_7 ids)
  show ?thesis using ms o r d by blast
qed

text \<open>
  C6, amended. The seeding of \<^verbatim>\<open>PutCommittee\<close> never gives an empty table, and the
  construction error for it is never returned: \<^verbatim>\<open>makeCommitteeMembers\<close>, given a service,
  returns nil for the empty member list only, which \<^verbatim>\<open>PutCommittee\<close> has rejected before as
  an invalid argument; for a member list that is not empty the table holds the identity of
  every member, the local node included, and is not empty.
\<close>

theorem PutCommittee_seeding_never_empty:
  "PutCommittee E n ci \<noteq> Done (n', Some NilCommitteeMembers)
   \<and> (makeCommitteeMembers E cid (Some ss) ci = None \<longleftrightarrow> Members ci = [])
   \<and> (Members ci = [] \<longrightarrow> PutCommittee E n ci = Done (n, Some WrongParams))
   \<and> (Members ci \<noteq> [] \<longrightarrow>
        (\<exists>tab. makeCommitteeMembers E cid (Some ss) ci = Some tab \<and>
           dom tab = memberID E ` set (Members ci) \<and> dom tab \<noteq> {}))"
proof (intro conjI impI)
  show "PutCommittee E n ci \<noteq> Done (n', Some NilCommitteeMembers)"
    by (rule PutCommittee_not_NilCommitteeMembers)
  show "makeCommitteeMembers E cid (Some ss) ci = None \<longleftrightarrow> Members ci = []"
    by (simp add: makeCommitteeMembers_None)
  show "PutCommittee E n ci = Done (n, Some WrongParams)" if "Members ci = []"
    using that by (simp add: PutCommittee_WrongParams)
  show "\<exists>tab. makeCommitteeMembers E cid (Some ss) ci = Some tab \<and>
           dom tab = memberID E ` set (Members ci) \<and> dom tab \<noteq> {}" if "Members ci \<noteq> []"
  proof -
    let ?tab = "\<lambda>k. if k \<in> memberID E ` set (Members ci) then Some None else None"
    have "makeCommitteeMembers E cid (Some ss) ci = Some ?tab"
      by (rule makeCommitteeMembers_Some [OF that])
    moreover have "dom ?tab = memberID E ` set (Members ci)" by (rule dom_placeholders)
    moreover have "memberID E ` set (Members ci) \<noteq> {}" using that by simp
    ultimately show ?thesis by metis
  qed
qed

theorem PutCommittee_seeding_never_empty_witness:
  "Members committeeSelf \<noteq> [] \<and>
   (\<exists>tab. makeCommitteeMembers testExt 7 (Some testService) committeeSelf = Some tab \<and>
      dom tab = {''0101''}) \<and>
   Members (committeeSelf\<lparr>Members := []\<rparr>) = [] \<and>
   PutCommittee testExt testNode (committeeSelf\<lparr>Members := []\<rparr>) =
     Done (testNode, Some WrongParams)"
proof -
  have m: "Members committeeSelf \<noteq> []" by (simp add: committeeSelf_def)
  have ids: "memberID testExt ` set (Members committeeSelf) = {''0101''}"
    by (simp add: committeeSelf_def test_memberIDs)
  note T = PutCommittee_seeding_never_empty
  from T [of testExt testNode committeeSelf _ 7 testService] m
  have "\<exists>tab. makeCommitteeMembers testExt 7 (Some testService) committeeSelf = Some tab \<and>
      dom tab = memberID testExt ` set (Members committeeSelf)" by blast
  then have a: "\<exists>tab. makeCommitteeMembers testExt 7 (Some testService) committeeSelf = Some tab \<and>
      dom tab = {''0101''}" by (simp only: ids)
  have e: "Members (committeeSelf\<lparr>Members := []\<rparr>) = []" by simp
  from T [of testExt testNode "committeeSelf\<lparr>Members := []\<rparr>"] e
  have b: "PutCommittee testExt testNode (committeeSelf\<lparr>Members := []\<rparr>) =
     Done (testNode, Some WrongParams)" by blast
  show ?thesis using m a e b by blast
qed

text \<open>
  C7. Let \<open>D\<close> be a descriptor with an identifier and a member list that is not empty, whose
  identifier is not registered, and for which the state agent can be built. Then
  \<^verbatim>\<open>PutCommittee\<close> succeeds and registers one service under the identifier, changing no other
  entry of the registry; a second call with \<open>D\<close> right after returns the duplicate error and
  leaves the registry as it is. A descriptor without identifier or with an empty member list
  gets the invalid-argument error, and the node is unchanged.
\<close>

theorem PutCommittee_once:
  "(Id ci = Some i \<and> Members ci \<noteq> [] \<and> services n (Uint64 i) = None \<and>
    NewStateAgent E (MakeValidators E ci) (Uint64 (StartHeight ci)) (Uint64 i) = Some st \<longrightarrow>
      (\<exists>n' s. PutCommittee E n ci = Done (n', None) \<and>
         services n' = (services n)(Uint64 i \<mapsto> s) \<and>
         PutCommittee E n' ci = Done (n', Some (RepeatID i))))
   \<and> (Id ci' = None \<or> Members ci' = [] \<longrightarrow> PutCommittee E n ci' = Done (n, Some WrongParams))"
proof (intro conjI impI)
  assume a: "Id ci = Some i \<and> Members ci \<noteq> [] \<and> services n (Uint64 i) = None \<and>
    NewStateAgent E (MakeValidators E ci) (Uint64 (StartHeight ci)) (Uint64 i) = Some st"
  then obtain s where
    s: "PutCommittee E n ci = Done (n\<lparr>services := (services n)(Uint64 i \<mapsto> s)\<rparr>, None)"
    using PutCommittee_accept [of ci i n E st] by blast
  let ?n' = "n\<lparr>services := (services n)(Uint64 i \<mapsto> s)\<rparr>"
  have "PutCommittee E ?n' ci = Done (?n', Some (RepeatID i))"
    using a by (intro PutCommittee_repeat) simp_all
  with s show "\<exists>n' s. PutCommittee E n ci = Done (n', None) \<and>
         services n' = (services n)(Uint64 i \<mapsto> s) \<and>
         PutCommittee E n' ci = Done (n', Some (RepeatID i))"
    by (intro exI [of _ ?n'] exI [of _ s]) simp
next
  assume "Id ci' = None \<or> Members ci' = []"
  then show "PutCommittee E n ci' = Done (n, Some WrongParams)"
    by (rule PutCommittee_WrongParams)
qed

theorem PutCommittee_once_witness:
  "Id committee7 = Some 7 \<and> Members committee7 \<noteq> [] \<and> services testNode (Uint64 7) = None \<and>
   NewStateAgent testExt (MakeValidators testExt committee7) (Uint64 (StartHeight committee7))
     (Uint64 7) = Some testAgent \<and>
   (\<exists>n' s. PutCommittee testExt testNode committee7 = Done (n', None) \<and>
      services n' = (services testNode)(Uint64 7 \<mapsto> s) \<and>
      PutCommittee testExt n' committee7 = Done (n', Some (RepeatID 7))) \<and>
   Id committeeNoId = None \<and>
   PutCommittee testExt testNode committeeNoId = Done (testNode, Some WrongParams)"
proof -
  have i: "Id committee7 = Some 7" and m: "Members committee7 \<noteq> []"
    by (simp_all add: committee7_def)
  have f: "services testNode (Uint64 7) = None" by (simp add: testNode_def NewNode_def)
  have st: "NewStateAgent testExt (MakeValidators testExt committee7)
     (Uint64 (StartHeight committee7)) (Uint64 7) = Some testAgent"
    unfolding test_NewStateAgent [OF i m]
    by (simp add: committee7_def testAgent_def testValidators_def)
  have no: "Id committeeNoId = None" by (simp add: committeeNoId_def)
  from PutCommittee_once [of committee7 7 testNode testExt testAgent committeeNoId]
  show ?thesis using i m f st no by blast
qed

subsection \<open>Notify, UpdateCommittee and GetCommitteeStatus\<close>

lemma stop_not_running: "\<not> sw_running (sw (stop s))"
  by (simp add: stop_def Let_def)

lemma stop_fields:
  "consensusState (stop s) = consensusState s \<and> sa (stop s) = sa s \<and>
   nodeTable (stop s) = nodeTable s"
  by (simp add: stop_def Let_def)

text \<open>\<^verbatim>\<open>service.stop\<close> in its two cases: with the switch running the driver loop gets the
  terminate signal, and health manager, event bus and switch are stopped; otherwise only
  the stop of the switch is called.\<close>

lemma stop_running:
  assumes "sw_running (sw s)"
  shows "updateChan (stop s) = updateChan s @ [False] \<and> \<not> hm_running (healthMgr (stop s)) \<and>
         \<not> eb_running (eventBus (stop s)) \<and> \<not> sw_running (sw (stop s))"
  using assms by (simp add: stop_def Let_def)

lemma stop_idle:
  assumes "\<not> sw_running (sw s)"
  shows "updateChan (stop s) = updateChan s \<and> healthMgr (stop s) = healthMgr s \<and>
         eventBus (stop s) = eventBus s \<and> \<not> sw_running (sw (stop s))"
  using assms by (simp add: stop_def Let_def)

lemma Notify_Stop_registered:
  assumes "services n (Uint64 j) = Some s" "consensusState s \<noteq> None"
  shows "Notify E n (Some j) Stop =
         Done (n\<lparr>services := (services n)(Uint64 j := None),
                 dropped := dropped n @ [stop s]\<rparr>, None)"
  using assms by (auto simp: Notify_def Start_def Stop_def Let_def)

lemma start_bus_error:
  assumes "EventBusStart E (eventBus s) = Some err"
  shows "start E cid n s = Done (s, Some err)"
  using assms by (simp add: start_def)

lemma start_switch_error:
  assumes "EventBusStart E (eventBus s) = None" "consensusState s = Some cs" "sa s = Some st"
    "\<forall>sw'. SwitchStart E sw' = Some err"
  shows "\<exists>s'. start E cid n s = Done (s', Some err)"
  using assms by (simp add: start_def Let_def)

lemma start_inv:
  assumes "start E cid n s = Done (s', e)"
  shows "(consensusState s' = None \<longleftrightarrow> consensusState s = None) \<and>
         (sa s' = None \<longleftrightarrow> sa s = None) \<and> nodeTable s' = nodeTable s"
  using assms
  by (auto simp: start_def Let_def split: option.splits)

text \<open>Whatever \<^verbatim>\<open>start\<close> returns for a registered service, \<^verbatim>\<open>Notify\<close> returns \<^verbatim>\<open>nil\<close>.\<close>

lemma Notify_Start_registered:
  assumes "services n (Uint64 i) = Some s" "start E i n s = Done (s', e)"
    "consensusState s \<noteq> None" "sa s \<noteq> None"
  shows "Notify E n (Some i) Start = Done (n\<lparr>services := (services n)(Uint64 i \<mapsto> s')\<rparr>, None)"
  using assms by (auto simp: Notify_def)

text \<open>
  C8. The claim: when the event bus or the switch fails to start, \<^verbatim>\<open>Notify(id, Start)\<close>
  returns that error. In \<^verbatim>\<open>Notify\<close> the result of \<^verbatim>\<open>server.start\<close> is dropped. With committee
  7 registered and an event bus that does not start, \<^verbatim>\<open>start\<close> returns the error of the bus
  and \<^verbatim>\<open>Notify\<close> returns \<^verbatim>\<open>nil\<close>.
\<close>

theorem Notify_Start_hides_error:
  "services testRegistry (Uint64 7) = Some testService \<and>
   start busFails 7 testRegistry testService =
     Done (testService, Some (External ''event bus'')) \<and>
   Notify busFails testRegistry (Some 7) Start = Done (testRegistry, None)"
proof -
  have r: "services testRegistry (Uint64 7) = Some testService"
    by (simp add: testRegistry_def Uint64_7)
  have "EventBusStart busFails (eventBus testService) = Some (External ''event bus'')"
    by (simp add: busFails_def)
  then have s: "start busFails 7 testRegistry testService =
     Done (testService, Some (External ''event bus''))"
    by (rule start_bus_error)
  have w: "consensusState testService \<noteq> None" "sa testService \<noteq> None"
    by (simp_all add: testService_def)
  have "testRegistry\<lparr>services := (services testRegistry)(Uint64 7 \<mapsto> testService)\<rparr> =
        testRegistry"
    by (simp add: testRegistry_def Uint64_7)
  with Notify_Start_registered [OF r s w]
  have "Notify busFails testRegistry (Some 7) Start = Done (testRegistry, None)" by simp
  with r s show ?thesis by blast
qed

text \<open>
  C9, as claimed: for an identifier in the registry \<^verbatim>\<open>Notify(id, Stop)\<close> stops the service
  and removes the identifier. The first part fails for a committee that was registered and
  never started: \<^verbatim>\<open>PutCommittee\<close> has started its health manager, the switch is not running,
  so that \<^verbatim>\<open>service.stop\<close> skips everything but the stop of the switch. The call returns
  \<^verbatim>\<open>nil\<close> and the identifier is removed, but the health manager of the service is still
  running, and no terminate signal is on its update channel.
\<close>

theorem Notify_Stop_idle_counterexample:
  "runningOf registered7 7 = Some False \<and>
   outcome (Notify testExt registered7 (Some 7) Stop) = Done None \<and>
   services (nodeAfter registered7 (Notify testExt registered7 (Some 7) Stop)) 7 = None \<and>
   droppedState (nodeAfter registered7 (Notify testExt registered7 (Some 7) Stop)) =
     [(False, True, False, [])]"
proof -
  have i: "Id committee7 = Some 7" and m: "Members committee7 \<noteq> []"
    by (simp_all add: committee7_def)
  have f: "services testNode (Uint64 7) = None" by (simp add: testNode_def NewNode_def)
  from PutCommittee_new_service [OF i m f test_NewStateAgent [OF i m]] obtain s where
    p: "PutCommittee testExt testNode committee7 =
          Done (testNode\<lparr>services := (services testNode)(Uint64 7 \<mapsto> s)\<rparr>, None)"
    and h: "hm_running (healthMgr s)" and w: "\<not> sw_running (sw s)"
    and b: "\<not> eb_running (eventBus s)" and u: "updateChan s = []"
    and c: "consensusState s \<noteq> None"
    by blast
  have r7: "registered7 = testNode\<lparr>services := (services testNode)(Uint64 7 \<mapsto> s)\<rparr>"
    by (simp add: registered7_def nodeAfter_def p)
  have look: "services registered7 (Uint64 7) = Some s" by (simp add: r7)
  have d0: "dropped registered7 = []" by (simp add: r7 testNode_def NewNode_def)
  have run: "runningOf registered7 7 = Some False"
    using look w by (simp add: runningOf_def Uint64_7)
  note N = Notify_Stop_registered [OF look c, of testExt]
  have o: "outcome (Notify testExt registered7 (Some 7) Stop) = Done None"
    by (simp add: N outcome_def)
  have g: "services (nodeAfter registered7 (Notify testExt registered7 (Some 7) Stop)) 7 = None"
    by (simp add: N nodeAfter_def Uint64_7)
  have "droppedState (nodeAfter registered7 (Notify testExt registered7 (Some 7) Stop)) =
     [(sw_running (sw (stop s)), hm_running (healthMgr (stop s)),
       eb_running (eventBus (stop s)), updateChan (stop s))]"
    by (simp add: N nodeAfter_def droppedState_def d0)
  then have ds: "droppedState
       (nodeAfter registered7 (Notify testExt registered7 (Some 7) Stop)) =
     [(False, True, False, [])]"
    using stop_idle [OF w] h b u by simp
  show ?thesis using run o g ds by blast
qed

text \<open>
  C9, amended. For an identifier that is not in the registry, \<^verbatim>\<open>Notify(id, Stop)\<close> returns
  \<^verbatim>\<open>nil\<close> and leaves the node as it is, and \<^verbatim>\<open>Notify(id, Start)\<close> returns the error for an
  unknown committee. For an identifier in the registry, whose service has its consensus
  state, \<^verbatim>\<open>Notify(id, Stop)\<close> returns \<^verbatim>\<open>nil\<close>, removes the identifier, and nothing else, from
  the registry, and calls the stop of the service, which leaves its node table as it is:
  when the switch of the service is running, the terminate signal is put on its update
  channel and its health manager, its event bus and its switch are stopped; when the switch
  is not running, only the stop of the switch is called, and update channel, health manager
  and event bus stay as they are.
\<close>

theorem Notify_unknown_and_stop:
  "(services n (Uint64 i) = None \<longrightarrow>
      Notify E n (Some i) Stop = Done (n, None) \<and>
      Notify E n (Some i) Start = Done (n, Some (WrongCommitteeID i)))
   \<and> (services n (Uint64 j) = Some s \<and> consensusState s \<noteq> None \<longrightarrow>
      (\<exists>n' s'. Notify E n (Some j) Stop = Done (n', None) \<and>
         services n' = (services n)(Uint64 j := None) \<and>
         dropped n' = dropped n @ [s'] \<and>
         \<not> sw_running (sw s') \<and> nodeTable s' = nodeTable s \<and>
         (sw_running (sw s) \<longrightarrow>
            updateChan s' = updateChan s @ [False] \<and> \<not> hm_running (healthMgr s') \<and>
            \<not> eb_running (eventBus s')) \<and>
         (\<not> sw_running (sw s) \<longrightarrow>
            updateChan s' = updateChan s \<and> healthMgr s' = healthMgr s \<and>
            eventBus s' = eventBus s)))"
proof (intro conjI impI)
  assume "services n (Uint64 i) = None"
  then show "Notify E n (Some i) Stop = Done (n, None)"
    and "Notify E n (Some i) Start = Done (n, Some (WrongCommitteeID i))"
    by (simp_all add: Notify_def Start_def Stop_def)
next
  assume "services n (Uint64 j) = Some s \<and> consensusState s \<noteq> None"
  then have p: "services n (Uint64 j) = Some s" and c: "consensusState s \<noteq> None"
    by simp_all
  let ?n' = "n\<lparr>services := (services n)(Uint64 j := None), dropped := dropped n @ [stop s]\<rparr>"
  have N: "Notify E n (Some j) Stop = Done (?n', None)"
    by (rule Notify_Stop_registered [OF p c])
  have r: "services ?n' = (services n)(Uint64 j := None)"
    and d: "dropped ?n' = dropped n @ [stop s]" by simp_all
  have t: "nodeTable (stop s) = nodeTable s" by (simp add: stop_fields)
  have run: "updateChan (stop s) = updateChan s @ [False] \<and>
      \<not> hm_running (healthMgr (stop s)) \<and> \<not> eb_running (eventBus (stop s))"
    if "sw_running (sw s)"
    using stop_running [OF that] by simp
  have idle: "updateChan (stop s) = updateChan s \<and> healthMgr (stop s) = healthMgr s \<and>
      eventBus (stop s) = eventBus s"
    if "\<not> sw_running (sw s)"
    using stop_idle [OF that] by simp
  show "\<exists>n' s'. Notify E n (Some j) Stop = Done (n', None) \<and>
         services n' = (services n)(Uint64 j := None) \<and>
         dropped n' = dropped n @ [s'] \<and>
         \<not> sw_running (sw s') \<and> nodeTable s' = nodeTable s \<and>
         (sw_running (sw s) \<longrightarrow>
            updateChan s' = updateChan s @ [False] \<and> \<not> hm_running (healthMgr s') \<and>
            \<not> eb_running (eventBus s')) \<and>
         (\<not> sw_running (sw s) \<longrightarrow>
            updateChan s' = updateChan s \<and> healthMgr s' = healthMgr s \<and>
            eventBus s' = eventBus s)"
    using N r d t run idle stop_not_running [of s]
    by (intro exI [of _ ?n'] exI [of _ "stop s"]) blast
qed

text \<open>Witness: committee 8 is not registered; committee 7 is stopped once with its switch,
  event bus and health manager running, and once without having been started.\<close>

theorem Notify_unknown_and_stop_witness:
  "services testRegistry (Uint64 8) = None \<and>
   Notify testExt testRegistry (Some 8) Stop = Done (testRegistry, None) \<and>
   Notify testExt testRegistry (Some 8) Start = Done (testRegistry, Some (WrongCommitteeID 8)) \<and>
   services startedRegistry (Uint64 7) = Some startedService \<and>
   consensusState startedService \<noteq> None \<and>
   sw_running (sw startedService) \<and> hm_running (healthMgr startedService) \<and>
   eb_running (eventBus startedService) \<and>
   (\<exists>n' s'. Notify testExt startedRegistry (Some 7) Stop = Done (n', None) \<and>
      services n' = (services startedRegistry)(Uint64 7 := None) \<and>
      dropped n' = dropped startedRegistry @ [s'] \<and>
      \<not> sw_running (sw s') \<and> updateChan s' = updateChan startedService @ [False] \<and>
      \<not> hm_running (healthMgr s') \<and> \<not> eb_running (eventBus s')) \<and>
   services testRegistry (Uint64 7) = Some testService \<and>
   consensusState testService \<noteq> None \<and>
   \<not> sw_running (sw testService) \<and>
   (\<exists>n' s'. Notify testExt testRegistry (Some 7) Stop = Done (n', None) \<and>
      services n' = (services testRegistry)(Uint64 7 := None) \<and>
      dropped n' = dropped testRegistry @ [s'] \<and>
      updateChan s' = updateChan testService \<and> healthMgr s' = healthMgr testService \<and>
      eventBus s' = eventBus testService)"
proof -
  have a: "services testRegistry (Uint64 8) = None"
    by (simp add: testRegistry_def Uint64_def)
  have p: "services startedRegistry (Uint64 7) = Some startedService"
    by (simp add: startedRegistry_def Uint64_7)
  have c: "consensusState startedService \<noteq> None"
    and w: "sw_running (sw startedService)" "hm_running (healthMgr startedService)"
      "eb_running (eventBus startedService)"
    by (simp_all add: startedService_def testService_def)
  have q: "services testRegistry (Uint64 7) = Some testService"
    by (simp add: testRegistry_def Uint64_7)
  have e: "consensusState testService \<noteq> None" and v: "\<not> sw_running (sw testService)"
    by (simp_all add: testService_def NewSwitch_def)
  from Notify_unknown_and_stop [of testRegistry 8 testExt] a
  have r1: "Notify testExt testRegistry (Some 8) Stop = Done (testRegistry, None)"
    and r2: "Notify testExt testRegistry (Some 8) Start =
             Done (testRegistry, Some (WrongCommitteeID 8))"
    by blast+
  from Notify_unknown_and_stop [of startedRegistry _ testExt 7 startedService] p c w(1)
  have r3: "\<exists>n' s'. Notify testExt startedRegistry (Some 7) Stop = Done (n', None) \<and>
      services n' = (services startedRegistry)(Uint64 7 := None) \<and>
      dropped n' = dropped startedRegistry @ [s'] \<and>
      \<not> sw_running (sw s') \<and> updateChan s' = updateChan startedService @ [False] \<and>
      \<not> hm_running (healthMgr s') \<and> \<not> eb_running (eventBus s')"
    by blast
  from Notify_unknown_and_stop [of testRegistry _ testExt 7 testService] q e v
  have r4: "\<exists>n' s'. Notify testExt testRegistry (Some 7) Stop = Done (n', None) \<and>
      services n' = (services testRegistry)(Uint64 7 := None) \<and>
      dropped n' = dropped testRegistry @ [s'] \<and>
      updateChan s' = updateChan testService \<and> healthMgr s' = healthMgr testService \<and>
      eventBus s' = eventBus testService"
    by blast
  show ?thesis using a r1 r2 p c w r3 q e v r4 by blast
qed

text \<open>An update that asks for a stop, and the status afterwards.\<close>

lemma UpdateCommittee_stop:
  assumes "Id info = Some i" "services n (Uint64 i) = Some s" "consensusState s = Some cs"
    "fst (UpdateValidatorSet E cs info)"
  shows "\<exists>s'. UpdateCommittee E n info =
                Done (n\<lparr>services := (services n)(Uint64 i \<mapsto> s')\<rparr>, None)
       \<and> \<not> sw_running (sw s') \<and> nodeTable s' = nodeTable s
       \<and> consensusState s' = Some (snd (UpdateValidatorSet E cs info))"
  using assms
  apply (simp add: UpdateCommittee_def Let_def)
  apply (rule exI)
  apply (rule conjI, rule refl)
  apply (simp add: stop_def Let_def)
  done

lemma GetCommitteeStatus_now:
  assumes "services n (Uint64 i) = Some s" "consensusState s \<noteq> None"
  shows "nowOf (GetCommitteeStatus n (Some i)) = Some (Uint64 i)"
  using assms
  by (auto simp: GetCommitteeStatus_def getCommittee_def getNodeStatus_def nowOf_def Let_def
      split: option.splits)

lemma GetCommitteeStatus_absent:
  assumes "services n (Uint64 i) = None"
  shows "nowOf (GetCommitteeStatus n (Some i)) = None"
  using assms
  by (auto simp: GetCommitteeStatus_def getCommittee_def nowOf_def Let_def split: option.splits)

lemma UpdateCommittee_stop_status:
  assumes "Id info = Some i" "services n (Uint64 i) = Some s" "consensusState s = Some cs"
    "fst (UpdateValidatorSet E cs info)"
  shows "outcome (UpdateCommittee E n info) = Done None
       \<and> runningOf (nodeAfter n (UpdateCommittee E n info)) (Uint64 i) = Some False
       \<and> nowOf (GetCommitteeStatus (nodeAfter n (UpdateCommittee E n info)) (Some i)) =
           Some (Uint64 i)"
proof -
  from UpdateCommittee_stop [OF assms] obtain s' where
    u: "UpdateCommittee E n info = Done (n\<lparr>services := (services n)(Uint64 i \<mapsto> s')\<rparr>, None)"
    and r: "\<not> sw_running (sw s')"
    and c: "consensusState s' = Some (snd (UpdateValidatorSet E cs info))"
    by blast
  let ?n' = "n\<lparr>services := (services n)(Uint64 i \<mapsto> s')\<rparr>"
  have n': "nodeAfter n (UpdateCommittee E n info) = ?n'" using u by (simp add: nodeAfter_def)
  have "nowOf (GetCommitteeStatus ?n' (Some i)) = Some (Uint64 i)"
    by (rule GetCommitteeStatus_now [of _ _ s']) (simp_all add: c)
  with u r show ?thesis unfolding n' by (simp add: outcome_def runningOf_def)
qed

lemma test_asksStop:
  "Id committeeAB = Some 7"
  "services liveRegistry (Uint64 7) = Some (testService\<lparr>sw := NewSwitch\<lparr>sw_running := True\<rparr>\<rparr>)"
  "consensusState (testService\<lparr>sw := NewSwitch\<lparr>sw_running := True\<rparr>\<rparr>) =
     Some \<lparr>Height = 0, Validators = testValidators, Votes = [],
           cs_privValidator = None, cs_healthMgr = True\<rparr>"
  "fst (UpdateValidatorSet asksStop cs committeeAB)"
  by (simp_all add: committeeAB_def liveRegistry_def Uint64_def testService_def asksStop_def
      testExt_def)

text \<open>
  C10, as claimed: an \<^verbatim>\<open>UpdateCommittee\<close> whose update of the validator set asks for a stop
  stops the service, and the identifier is no longer in the section \<^verbatim>\<open>committee_now\<close> of a
  later \<^verbatim>\<open>GetCommitteeStatus\<close>. The second part fails: committee 7 is live, the local node is
  not among the members of the new descriptor and the update asks for a stop; the call
  succeeds, the switch of the service is stopped, and \<^verbatim>\<open>committee_now\<close> of the status of 7 is
  still committee 7.
\<close>

theorem UpdateCommittee_stop_counterexample:
  "runningOf liveRegistry 7 = Some True \<and>
   outcome (UpdateCommittee asksStop liveRegistry committeeAB) = Done None \<and>
   runningOf (nodeAfter liveRegistry (UpdateCommittee asksStop liveRegistry committeeAB)) 7 =
     Some False \<and>
   nowOf (GetCommitteeStatus
            (nodeAfter liveRegistry (UpdateCommittee asksStop liveRegistry committeeAB))
            (Some 7)) = Some 7"
proof -
  have l: "runningOf liveRegistry 7 = Some True"
    by (simp add: runningOf_def liveRegistry_def NewSwitch_def)
  from UpdateCommittee_stop_status [OF test_asksStop] l show ?thesis
    by (simp only: Uint64_7)
qed

text \<open>
  C10, amended. For every registered service with its consensus state, an \<^verbatim>\<open>UpdateCommittee\<close>
  whose update of the validator set asks for a stop succeeds and stops the service: its
  switch is not running afterwards. The service stays in the registry, and the section
  \<^verbatim>\<open>committee_now\<close> of a later \<^verbatim>\<open>GetCommitteeStatus\<close> for the identifier still holds the
  committee; only \<^verbatim>\<open>Notify(id, Stop)\<close> removes it.
\<close>

theorem UpdateCommittee_stop_keeps_registered:
  assumes "Id info = Some i" "services n (Uint64 i) = Some s" "consensusState s = Some cs"
    "fst (UpdateValidatorSet E cs info)"
  shows "outcome (UpdateCommittee E n info) = Done None
       \<and> runningOf (nodeAfter n (UpdateCommittee E n info)) (Uint64 i) = Some False
       \<and> nowOf (GetCommitteeStatus (nodeAfter n (UpdateCommittee E n info)) (Some i)) =
           Some (Uint64 i)
       \<and> nowOf (GetCommitteeStatus
                  (nodeAfter (nodeAfter n (UpdateCommittee E n info))
                     (Notify E (nodeAfter n (UpdateCommittee E n info)) (Some i) Stop))
                  (Some i)) = None"
proof -
  note st = UpdateCommittee_stop_status [OF assms]
  from UpdateCommittee_stop [OF assms] obtain s' where
    u: "UpdateCommittee E n info = Done (n\<lparr>services := (services n)(Uint64 i \<mapsto> s')\<rparr>, None)"
    and c: "consensusState s' = Some (snd (UpdateValidatorSet E cs info))"
    by blast
  let ?n' = "n\<lparr>services := (services n)(Uint64 i \<mapsto> s')\<rparr>"
  have n': "nodeAfter n (UpdateCommittee E n info) = ?n'" using u by (simp add: nodeAfter_def)
  have "Notify E ?n' (Some i) Stop =
          Done (?n'\<lparr>services := (services ?n')(Uint64 i := None),
                     dropped := dropped ?n' @ [stop s']\<rparr>, None)"
    by (simp add: Notify_def Start_def Stop_def c Let_def)
  then have "services (nodeAfter ?n' (Notify E ?n' (Some i) Stop)) (Uint64 i) = None"
    by (simp add: nodeAfter_def)
  then have "nowOf (GetCommitteeStatus (nodeAfter ?n' (Notify E ?n' (Some i) Stop)) (Some i))
               = None"
    by (rule GetCommitteeStatus_absent)
  with st show ?thesis unfolding n' by simp
qed

theorem UpdateCommittee_stop_keeps_registered_witness:
  "Id committeeAB = Some 7 \<and>
   services liveRegistry (Uint64 7) = Some (testService\<lparr>sw := NewSwitch\<lparr>sw_running := True\<rparr>\<rparr>) \<and>
   fst (UpdateValidatorSet asksStop
          \<lparr>Height = 0, Validators = testValidators, Votes = [],
           cs_privValidator = None, cs_healthMgr = True\<rparr> committeeAB) \<and>
   outcome (UpdateCommittee asksStop liveRegistry committeeAB) = Done None \<and>
   runningOf (nodeAfter liveRegistry (UpdateCommittee asksStop liveRegistry committeeAB))
     (Uint64 7) = Some False \<and>
   nowOf (GetCommitteeStatus
            (nodeAfter liveRegistry (UpdateCommittee asksStop liveRegistry committeeAB))
            (Some 7)) = Some (Uint64 7)"
  using UpdateCommittee_stop_keeps_registered [OF test_asksStop] test_asksStop
  by blast

subsection \<open>The operations keep the registry wired and do not panic on it\<close>

lemma wired_NewNode: "wired (NewNode c p)"
  by (simp add: wired_def NewNode_def)

lemma wiredD:
  assumes "wired n" "services n k = Some s"
  shows "wiredService s"
  using assms unfolding wired_def by blast

lemma wiredServiceD:
  assumes "wiredService s"
  obtains cs st where "consensusState s = Some cs" "sa s = Some st"
  using assms by (auto simp: wiredService_def)

lemma wired_update:
  assumes "wired n" "wiredService s"
  shows "wired (n\<lparr>services := (services n)(k \<mapsto> s)\<rparr>)"
  using assms by (simp add: wired_def)

lemma wired_services_cong:
  assumes "wired n" "services n' = services n"
  shows "wired n'"
  using assms by (simp add: wired_def)

lemma PutCommittee_wired:
  assumes "PutCommittee E n ci = Done (n', e)" "wired n"
  shows "wired n'"
proof (cases e)
  case (Some err)
  with assms(1) have "services n' = services n" by (simp add: PutCommittee_error_unchanged)
  with assms(2) show ?thesis by (rule wired_services_cong)
next
  case None
  with assms(1) have d: "PutCommittee E n ci = Done (n', None)" by simp
  from PutCommittee_Done_None [OF d] obtain i st where
    h: "Id ci = Some i" "Members ci \<noteq> []" "services n (Uint64 i) = None"
    "NewStateAgent E (MakeValidators E ci) (Uint64 (StartHeight ci)) (Uint64 i) = Some st"
    by blast
  from PutCommittee_accept [OF h] obtain s where
    s: "PutCommittee E n ci = Done (n\<lparr>services := (services n)(Uint64 i \<mapsto> s)\<rparr>, None)"
    and t: "nodeTable s = (\<lambda>k. if k \<in> memberID E ` set (Members ci) then Some None else None)"
    and a: "sa s = Some st" and c: "consensusState s \<noteq> None"
    by blast
  have "wiredService s"
    using a c by (simp add: wiredService_def)
  with assms(2) have "wired (n\<lparr>services := (services n)(Uint64 i \<mapsto> s)\<rparr>)"
    by (rule wired_update)
  with s d show ?thesis by simp
qed

lemma PutNodes_wired:
  assumes "PutNodes E n id' nodes = Done (n', e)" "wired n"
  shows "wired n'"
proof (cases "\<exists>i s s'. id' = Some i \<and> nodes \<noteq> [] \<and> services n (Uint64 i) = Some s \<and>
                putNodes E i s nodes = Done s'")
  case True
  then obtain i s s' where
    h: "id' = Some i" "nodes \<noteq> []" "services n (Uint64 i) = Some s"
    "putNodes E i s nodes = Done s'" by blast
  from assms(2) h(3) have "wiredService s" by (rule wiredD)
  with h(4) have "wiredService s'" by (rule putNodes_wiredService)
  with assms(2) have "wired (n\<lparr>services := (services n)(Uint64 i \<mapsto> s')\<rparr>)"
    by (rule wired_update)
  with assms(1) h show ?thesis by (simp add: PutNodes_def)
next
  case False
  with assms(1) have "n' = n"
    by (auto simp: PutNodes_def split: option.splits if_splits exec.splits)
  with assms(2) show ?thesis by simp
qed

lemma PutNodes_returns:
  assumes "wired n"
  shows "\<exists>r. PutNodes E n id' nodes = Done r"
proof (cases "\<exists>i s. id' = Some i \<and> nodes \<noteq> [] \<and> services n (Uint64 i) = Some s")
  case True
  then obtain i s where h: "id' = Some i" "nodes \<noteq> []" "services n (Uint64 i) = Some s"
    by blast
  from wiredD [OF assms h(3)] obtain cs st where "sa s = Some st" "consensusState s = Some cs"
    by (auto elim: wiredServiceD)
  from putNodes_returns [OF this] obtain s' where "putNodes E i s nodes = Done s'" by blast
  with h show ?thesis by (simp add: PutNodes_def)
next
  case False
  then show ?thesis
    by (auto simp: PutNodes_def split: option.splits)
qed

lemma start_wiredService:
  assumes "start E cid n s = Done (s', e)" "wiredService s"
  shows "wiredService s'"
  using assms
  by (auto simp: start_def Let_def wiredService_def split: option.splits)

lemma start_returns:
  assumes "wiredService s"
  shows "\<exists>r. start E cid n s = Done r"
  using assms
  by (auto simp: start_def Let_def wiredService_def split: option.splits)

lemma stop_wiredService:
  assumes "wiredService s"
  shows "wiredService (stop s)"
  using assms by (simp add: wiredService_def stop_fields)

lemma Notify_wired:
  assumes "Notify E n id' action = Done (n', e)" "wired n"
  shows "wired n'"
proof (cases "\<exists>i s. action = Start \<and> id' = Some i \<and> services n (Uint64 i) = Some s")
  case True
  then obtain i s where h: "action = Start" "id' = Some i" "services n (Uint64 i) = Some s"
    by blast
  from assms(2) h(3) have w: "wiredService s" by (rule wiredD)
  from start_returns [OF w] obtain s' e' where st: "start E i n s = Done (s', e')" by force
  from w have "consensusState s \<noteq> None" "sa s \<noteq> None" by (auto simp: wiredService_def)
  from Notify_Start_registered [OF h(3) st this] assms(1) h
  have "n' = n\<lparr>services := (services n)(Uint64 i \<mapsto> s')\<rparr>" by simp
  with wired_update [OF assms(2) start_wiredService [OF st w]] show ?thesis by simp
next
  case False
  with assms(1) have "\<forall>k s. services n' k = Some s \<longrightarrow> services n k = Some s"
    by (auto simp: Notify_def Start_def Stop_def Let_def split: option.splits if_splits)
  with assms(2) show ?thesis unfolding wired_def by blast
qed

lemma Notify_returns:
  assumes "wired n" "id' \<noteq> None"
  shows "\<exists>r. Notify E n id' action = Done r"
proof -
  from assms(2) obtain i where i: "id' = Some i" by auto
  show ?thesis
  proof (cases "services n (Uint64 i)")
    case None
    with i show ?thesis by (simp add: Notify_def)
  next
    case (Some s)
    with assms(1) have w: "wiredService s" by (rule wiredD)
    then have c: "consensusState s \<noteq> None" "sa s \<noteq> None" by (auto simp: wiredService_def)
    from start_returns [OF w] obtain s' e' where st: "start E i n s = Done (s', e')" by force
    from Notify_Start_registered [OF Some st c] c Some i show ?thesis
      by (auto simp: Notify_def Let_def)
  qed
qed

lemma UpdateCommittee_wired:
  assumes "UpdateCommittee E n info = Done (n', e)" "wired n"
  shows "wired n'"
proof (cases "\<exists>i s cs. Id info = Some i \<and> services n (Uint64 i) = Some s \<and>
                consensusState s = Some cs")
  case True
  then obtain i s cs where
    h: "Id info = Some i" "services n (Uint64 i) = Some s" "consensusState s = Some cs"
    by blast
  from assms(2) h(2) have w: "wiredService s" by (rule wiredD)
  let ?s1 = "s\<lparr>consensusState := Some (snd (UpdateValidatorSet E cs info))\<rparr>"
  let ?s2 = "if fst (UpdateValidatorSet E cs info) then stop ?s1 else ?s1"
  let ?s4 = "?s2\<lparr>updateChan := updateChan ?s2 @ [True],
                 healthMgr := UpdateFromCommittee (Members info) (BackMembers info)
                                (healthMgr ?s2)\<rparr>"
  have "wiredService ?s1" using w by (auto simp: wiredService_def)
  then have "wiredService ?s2" by (simp add: stop_wiredService)
  then have "wiredService ?s4" by (auto simp: wiredService_def)
  then have "wired (n\<lparr>services := (services n)(Uint64 i \<mapsto> ?s4)\<rparr>)"
    by (rule wired_update [OF assms(2)])
  moreover have "n' = n\<lparr>services := (services n)(Uint64 i \<mapsto> ?s4)\<rparr>"
    using assms(1) h by (simp add: UpdateCommittee_def Let_def)
  ultimately show ?thesis by simp
next
  case False
  with assms(1) have "n' = n"
    by (auto simp: UpdateCommittee_def Let_def split: option.splits)
  with assms(2) show ?thesis by simp
qed

lemma UpdateCommittee_returns:
  assumes "wired n" "Id info \<noteq> None"
  shows "\<exists>r. UpdateCommittee E n info = Done r"
proof -
  from assms(2) obtain i where i: "Id info = Some i" by auto
  show ?thesis
  proof (cases "services n (Uint64 i)")
    case None
    with i show ?thesis by (simp add: UpdateCommittee_def)
  next
    case (Some s)
    from wiredD [OF assms(1) Some] obtain cs where "consensusState s = Some cs"
      by (auto elim: wiredServiceD)
    with i Some show ?thesis by (simp add: UpdateCommittee_def Let_def)
  qed
qed

lemma GetCommitteeStatus_returns:
  assumes "wired n"
  shows "\<exists>st. GetCommitteeStatus n (Some i) = Done st"
proof (cases "services n (Uint64 i)")
  case None
  then show ?thesis by (simp add: GetCommitteeStatus_def getCommittee_def Let_def)
next
  case (Some s)
  from wiredD [OF assms Some] obtain cs where "consensusState s = Some cs"
    by (auto elim: wiredServiceD)
  with Some show ?thesis
    by (simp add: GetCommitteeStatus_def getCommittee_def getNodeStatus_def Let_def)
qed

text \<open>A pass of \<^verbatim>\<open>updateNodes\<close> keeps a service wired: it touches the switch and the table
  only.\<close>

lemma connTo_wiredService:
  assumes "wiredService s" "nodeTable s k = Some (Some v)"
  shows "wiredService (connTo E s k v)"
  using assms
  by (auto simp: connTo_def Let_def wiredService_def split: option.splits)

lemma updateNodes_wiredService:
  assumes "updateNodes E s ks = Done s'" "wiredService s"
  shows "wiredService s'"
  using assms
proof (induction ks arbitrary: s)
  case Nil
  then show ?case by simp
next
  case (Cons k ks)
  show ?case
  proof (cases "nodeTable s k")
    case None
    with Cons show ?thesis by simp
  next
    case (Some e)
    with Cons.prems(1) obtain v where v: "nodeTable s k = Some (Some v)"
      by (cases e) auto
    from Cons.prems(1) v have
      "updateNodes E s ks = Done s' \<or> updateNodes E (connTo E s k v) ks = Done s'"
      by (auto simp: Let_def split: option.splits if_splits)
    then show ?thesis
    proof
      assume "updateNodes E s ks = Done s'"
      then show ?thesis by (rule Cons.IH [OF _ Cons.prems(2)])
    next
      assume "updateNodes E (connTo E s k v) ks = Done s'"
      then show ?thesis by (rule Cons.IH [OF _ connTo_wiredService [OF Cons.prems(2) v]])
    qed
  qed
qed


end
